(* ===== verification/Prelude.thy ===== *)
theory Prelude
  imports Main "HOL-Library.Word"
begin

text \<open>
  Shared vocabulary of the development: the machine types of the C sources
  (\<open>uint8_t\<close>, \<open>uint32_t\<close>), the handle type of the SDS recorder
  (\<open>sdsRecId_t\<close>, a pointer that is \<open>NULL\<close> on failure, modelled as
  \<open>rec_id option\<close>), the constants of the external CMSIS-VIO and SDS
  interfaces that the sources only call, the fault values that stand for
  undefined behaviour of C (a \<open>NULL\<close> dereference, a \<open>memcpy\<close> out of
  bounds), and the generic lemmas on words and lists that the component
  theories share.
\<close>

unbundle bit_operations_syntax

type_synonym u8 = "8 word"
type_synonym u32 = "32 word"

text \<open>\<open>sdsRecId_t\<close> is an opaque pointer; a non-NULL handle is a number.\<close>

type_synonym rec_id = nat

text \<open>Undefined behaviour of the C code, made an explicit result.\<close>

datatype mem_fault = NullDeref | DstOverflow | SrcOverread

named_theorems ctl_simps "equations of the recording-controller steps"
named_theorems sensor_simps "equations of the sensor driver operations"

subsection \<open>External interface constants\<close>

text \<open>
  CMSIS-VIO (\<open>cmsis_vio.h\<close>): signal identifiers are bit masks;
  \<open>vioGetSignal mask\<close> returns the input signals masked by \<open>mask\<close>.
\<close>

definition vioBUTTON0 :: u32 where "vioBUTTON0 = 1"
definition vioLEDon :: u32 where "vioLEDon = 1"
definition vioLEDoff :: u32 where "vioLEDoff = 0"

definition vioGetSignal :: "u32 \<Rightarrow> u32 \<Rightarrow> u32" where
  "vioGetSignal msk inputs = inputs AND msk"

text \<open>SDS recorder (\<open>sds_rec.h\<close>): return codes and the I/O error event bit.\<close>

definition SDS_REC_OK :: int where "SDS_REC_OK = 0"
definition SDS_REC_ERROR :: int where "SDS_REC_ERROR = -1"
definition SDS_REC_EVENT_IO_ERROR :: u32 where "SDS_REC_EVENT_IO_ERROR = 1"

lemmas iface_consts [simp] =
  vioBUTTON0_def vioLEDon_def vioLEDoff_def SDS_REC_OK_def SDS_REC_ERROR_def
  SDS_REC_EVENT_IO_ERROR_def

subsection \<open>Generic lemmas\<close>

text \<open>An 8-bit counter below its top value increments without wrapping.\<close>

lemma unat_u8_incr [simp]:
  "unat (c :: u8) < 255 \<Longrightarrow> unat (c + 1) = Suc (unat c)"
  by (simp add: unat_word_ariths)

lemma u8_le_10_incr:
  "\<not> (10 :: u8) \<le> c \<Longrightarrow> unat (c + 1) = Suc (unat c)"
  by (simp add: word_le_nat_alt)

text \<open>The unsigned 32-bit product wraps modulo \<open>2 ^ 32\<close>.\<close>

lemma unat_u32_mult:
  "unat (a * b :: u32) = unat a * unat b mod 2 ^ 32"
  by (simp add: unat_word_ariths)

lemma unat_u32_mult_nowrap:
  "unat a * unat b < 2 ^ 32 \<Longrightarrow> unat (a * b :: u32) = unat a * unat b"
  by (simp add: unat_u32_mult)

text \<open>Counting occurrences in an append-only log.\<close>

lemma count_list_append_single [simp]:
  "count_list (xs @ [y]) x = count_list xs x + (if y = x then 1 else 0)"
  by (induction xs) auto

end
