(* ===== verification/ErrorReport.thy ===== *)
theory ErrorReport
  imports Prelude
begin

text \<open>
  The process-wide error record of the recorder and its latching assertion:
  the struct \<open>sds_error_t\<close> and the macro \<open>sds_assert\<close> of
  \<open>src/Hardware/ModelTest/recorder_sds.h\<close> (the same struct and macro,
  named \<open>sdsError_t\<close>/\<open>SDS_ASSERT\<close>, appear in
  \<open>src/Hardware/Model1/Sensor/rec_management.h\<close>), and the recorder event
  callback that turns an I/O error event into a failed assertion.
  A fold of assertions is proved to record exactly the first failing one
  (a refinement of the abstract "first failure" function), and a latched
  record is never changed again.
\<close>

subsection \<open>Error record and assertion macro\<close>

text \<open>\<open>err_file\<close> (C field \<open>file\<close>) is a \<open>const char *\<close>; \<open>NULL\<close> is \<open>None\<close>.\<close>

record sds_error_t =
  occurred :: u8
  reported :: u8
  err_file :: "string option"
  err_line :: u32

definition sds_error_init :: sds_error_t where
  "sds_error_init = \<lparr>occurred = 0, reported = 0, err_file = None, err_line = 0\<rparr>"

text \<open>
  \<open>if (((cond) == false) && (sds_error.occurred == 0U)) { occurred = 1;
  file = __FILE__; line = __LINE__; }\<close>: the source location is passed in.
\<close>

definition sds_assert :: "bool \<Rightarrow> string \<Rightarrow> u32 \<Rightarrow> sds_error_t \<Rightarrow> sds_error_t" where
  "sds_assert cond f l e =
     (if cond = False \<and> occurred e = 0
      then e\<lparr>occurred := 1, err_file := Some f, err_line := l\<rparr>
      else e)"

text \<open>The recorder event callback: an \<open>SDS_REC_EVENT_IO_ERROR\<close> bit fails an assertion.\<close>

definition recorder_event_callback ::
  "string \<Rightarrow> u32 \<Rightarrow> rec_id option \<Rightarrow> u32 \<Rightarrow> sds_error_t \<Rightarrow> sds_error_t" where
  "recorder_event_callback f l rid event e =
     (if (event AND SDS_REC_EVENT_IO_ERROR) \<noteq> 0 then sds_assert False f l e else e)"

subsection \<open>Abstract view: the first failure\<close>

text \<open>An assertion site: its condition and its source location.\<close>

type_synonym assertion = "bool \<times> string \<times> u32"

definition sds_assert_all :: "assertion list \<Rightarrow> sds_error_t \<Rightarrow> sds_error_t" where
  "sds_assert_all xs e = fold (\<lambda>(c, f, l). sds_assert c f l) xs e"

fun first_failure :: "assertion list \<Rightarrow> (string \<times> u32) option" where
  "first_failure [] = None"
| "first_failure ((c, f, l) # xs) = (if c then first_failure xs else Some (f, l))"

definition err_loc :: "sds_error_t \<Rightarrow> (string \<times> u32) option" where
  "err_loc e = (if occurred e = 0 then None else map_option (\<lambda>f. (f, err_line e)) (err_file e))"

subsection \<open>Lemmas\<close>

lemma sds_assert_true [simp]: "sds_assert True f l e = e"
  by (simp add: sds_assert_def)

lemma sds_assert_latched [simp]: "occurred e \<noteq> 0 \<Longrightarrow> sds_assert c f l e = e"
  by (simp add: sds_assert_def)

lemma sds_assert_fires:
  "occurred e = 0 \<Longrightarrow> sds_assert False f l e = e\<lparr>occurred := 1, err_file := Some f, err_line := l\<rparr>"
  by (simp add: sds_assert_def)

lemma occurred_sds_assert:
  "occurred (sds_assert c f l e) = (if \<not> c \<and> occurred e = 0 then 1 else occurred e)"
  by (simp add: sds_assert_def)

lemma reported_sds_assert [simp]: "reported (sds_assert c f l e) = reported e"
  by (simp add: sds_assert_def)

lemma sds_assert_all_Cons [simp]:
  "sds_assert_all ((c, f, l) # xs) e = sds_assert_all xs (sds_assert c f l e)"
  by (simp add: sds_assert_all_def)

lemma sds_assert_all_Nil [simp]: "sds_assert_all [] e = e"
  by (simp add: sds_assert_all_def)

lemma sds_assert_all_latched: "occurred e \<noteq> 0 \<Longrightarrow> sds_assert_all xs e = e"
proof (induction xs)
  case Nil
  then show ?case by simp
next
  case (Cons a xs)
  then show ?case by (cases a) (simp add: sds_assert_all_def)
qed

lemma err_loc_fired: "err_loc (e\<lparr>occurred := 1, err_file := Some f, err_line := l\<rparr>) = Some (f, l)"
  by (simp add: err_loc_def)

subsection \<open>Properties\<close>

text \<open>
  C6. Refinement of the abstract error report: running any sequence of
  assertions on a clean record leaves in it exactly the location of the first
  assertion whose condition was false, and no location if none failed.
\<close>

theorem sds_assert_first_failure:
  "occurred e = 0 \<Longrightarrow> err_loc (sds_assert_all xs e) = first_failure xs"
proof (induction xs arbitrary: e)
  case Nil
  then show ?case by (simp add: err_loc_def)
next
  case (Cons a xs)
  obtain c f l where a: "a = (c, f, l)" by (cases a) auto
  show ?case
  proof (cases c)
    case True
    with Cons a show ?thesis by simp
  next
    case False
    with Cons.prems a show ?thesis
      by (simp add: sds_assert_fires sds_assert_all_latched err_loc_fired)
  qed
qed

theorem sds_assert_first_failure_witness:
  "occurred sds_error_init = 0 \<and>
   err_loc (sds_assert_all [(True, ''a.c'', 10), (False, ''a.c'', 20), (False, ''b.c'', 30)]
              sds_error_init) = Some (''a.c'', 20)"
  using sds_assert_first_failure [of sds_error_init
      "[(True, ''a.c'', 10), (False, ''a.c'', 20), (False, ''b.c'', 30)]"]
  by (simp add: sds_error_init_def)

text \<open>
  C7. Latch-once: the record reports an error after a sequence of assertions
  exactly when it already did or one of the assertions failed, and once an
  error is latched no later assertion changes the record at all.
\<close>

theorem sds_assert_latch_once:
  "(occurred (sds_assert_all xs e) \<noteq> 0 \<longleftrightarrow>
      occurred e \<noteq> 0 \<or> (\<exists>(c, f, l) \<in> set xs. \<not> c)) \<and>
   (occurred e \<noteq> 0 \<longrightarrow> sds_assert_all xs e = e)"
proof (induction xs arbitrary: e)
  case Nil
  then show ?case by simp
next
  case (Cons a xs)
  obtain c f l where a: "a = (c, f, l)" by (cases a) auto
  have "occurred (sds_assert c f l e) \<noteq> 0 \<longleftrightarrow> occurred e \<noteq> 0 \<or> \<not> c"
    by (simp add: occurred_sds_assert)
  with Cons.IH [of "sds_assert c f l e"] a show ?case
    by (auto simp: sds_assert_all_latched)
qed

theorem sds_assert_latch_once_witness:
  "occurred (sds_assert_all [(False, ''x.c'', 1)] sds_error_init) \<noteq> 0 \<and>
   sds_assert_all [(False, ''y.c'', 2)] (sds_assert_all [(False, ''x.c'', 1)] sds_error_init)
     = sds_assert_all [(False, ''x.c'', 1)] sds_error_init"
  using sds_assert_latch_once [of "[(False, ''x.c'', 1)]" sds_error_init]
        sds_assert_latch_once [of "[(False, ''y.c'', 2)]"
                                  "sds_assert_all [(False, ''x.c'', 1)] sds_error_init"]
  by simp

end
