(* ===== verification/ErrorLatch.thy ===== *)
theory ErrorLatch
  imports ErrorReport
begin

text \<open>
  The assertion macro as the processor executes it.  \<open>sds_assert\<close>
  (\<open>recorder_sds.h\<close>) and \<open>SDS_ASSERT\<close> (\<open>rec_management.h\<close>) expand to a
  read of \<open>occurred\<close> followed by three separate stores to the shared error
  record; the controller thread runs them after each recorder call, and the
  recorder's I/O thread runs them from \<open>recorder_event_callback\<close>.  This
  theory models each expansion as a thread with a program counter over the
  four steps and the two threads as an inductive interleaving step relation
  on the shared record.  Interleaved, every reachable record still reports a failure exactly when
  one occurred, but the reported file and line may come from different
  assertions.  The \<open>NDEBUG\<close> variant of \<open>SDS_ASSERT\<close> is also modelled.
\<close>

subsection \<open>The header of \<open>Model1\<close>\<close>

text \<open>\<open>sdsError_t\<close> has the layout of \<open>sds_error_t\<close>.\<close>

type_synonym sdsError_t = sds_error_t

text \<open>\<open>SDS_ASSERT(cond)\<close>: the latch when \<open>NDEBUG\<close> is undefined, empty otherwise.\<close>

definition SDS_ASSERT :: "bool \<Rightarrow> bool \<Rightarrow> string \<Rightarrow> u32 \<Rightarrow> sdsError_t \<Rightarrow> sdsError_t" where
  "SDS_ASSERT ndebug cond f l e =
     (if ndebug then e
      else if cond = False \<and> occurred e = 0
      then e\<lparr>occurred := 1, err_file := Some f, err_line := l\<rparr>
      else e)"

subsection \<open>The macro as a sequence of steps\<close>

datatype latch_pc = L_Check | L_Occurred | L_File | L_Line | L_Done

text \<open>A thread executing one expansion of the macro: its position, the value of
  \<open>cond\<close> and its \<open>__FILE__\<close>/\<open>__LINE__\<close>.\<close>

record latch_thread =
  l_pc :: latch_pc
  l_cond :: bool
  l_file :: string
  l_line :: u32

definition assert_start :: "bool \<Rightarrow> string \<Rightarrow> u32 \<Rightarrow> latch_thread" where
  "assert_start c f l = \<lparr>l_pc = L_Check, l_cond = c, l_file = f, l_line = l\<rparr>"

text \<open>
  One step: the test \<open>((cond) == false) && (occurred == 0U)\<close> (one read of
  the shared record), then \<open>occurred = 1U\<close>, \<open>file = __FILE__\<close>,
  \<open>line = __LINE__\<close>; a finished thread has no step.
\<close>

definition latch_step_thread :: "latch_thread \<Rightarrow> sds_error_t \<Rightarrow> (latch_thread \<times> sds_error_t) option" where
  "latch_step_thread t e =
     (case l_pc t of
        L_Check \<Rightarrow>
          Some (if l_cond t = False \<and> occurred e = 0 then t\<lparr>l_pc := L_Occurred\<rparr> else t\<lparr>l_pc := L_Done\<rparr>, e)
      | L_Occurred \<Rightarrow> Some (t\<lparr>l_pc := L_File\<rparr>, e\<lparr>occurred := 1\<rparr>)
      | L_File \<Rightarrow> Some (t\<lparr>l_pc := L_Line\<rparr>, e\<lparr>err_file := Some (l_file t)\<rparr>)
      | L_Line \<Rightarrow> Some (t\<lparr>l_pc := L_Done\<rparr>, e\<lparr>err_line := l_line t\<rparr>)
      | L_Done \<Rightarrow> None)"

text \<open>Two threads interleaved on the shared record: either takes the next step.\<close>

type_synonym latch_state = "sds_error_t \<times> latch_thread \<times> latch_thread"

inductive latch_step :: "latch_state \<Rightarrow> latch_state \<Rightarrow> bool" where
  left: "latch_step_thread t1 e = Some (t1', e') \<Longrightarrow> latch_step (e, t1, t2) (e', t1', t2)"
| right: "latch_step_thread t2 e = Some (t2', e') \<Longrightarrow> latch_step (e, t1, t2) (e', t1, t2')"


text \<open>A schedule: \<open>True\<close> lets the first thread step, \<open>False\<close> the second; a finished thread skips.\<close>

fun latch_sched :: "bool list \<Rightarrow> latch_state \<Rightarrow> latch_state" where
  "latch_sched [] s = s"
| "latch_sched (b # bs) (e, t1, t2) =
     (if b then (case latch_step_thread t1 e of
                   None \<Rightarrow> latch_sched bs (e, t1, t2)
                 | Some (t1', e') \<Rightarrow> latch_sched bs (e', t1', t2))
      else (case latch_step_thread t2 e of
              None \<Rightarrow> latch_sched bs (e, t1, t2)
            | Some (t2', e') \<Rightarrow> latch_sched bs (e', t1, t2')))"



subsection \<open>Lemmas\<close>









lemma latch_sched_reach: "latch_step\<^sup>*\<^sup>* s (latch_sched bs s)"
proof (induction bs s rule: latch_sched.induct)
  case 1 then show ?case by simp
next
  case (2 b bs e t1 t2)
  show ?case
  proof (cases b)
    case True
    then show ?thesis
    proof (cases "latch_step_thread t1 e")
      case None with 2 True show ?thesis by simp
    next
      case (Some r)
      obtain t1' e' where r: "r = (t1', e')" by fastforce
      have "latch_step (e, t1, t2) (e', t1', t2)" using Some r by (simp add: latch_step.left)
      with 2(2) [OF True Some r [symmetric]] True Some r show ?thesis
        by (simp add: converse_rtranclp_into_rtranclp)
    qed
  next
    case False
    then show ?thesis
    proof (cases "latch_step_thread t2 e")
      case None with 2 False show ?thesis by simp
    next
      case (Some r)
      obtain t2' e' where r: "r = (t2', e')" by fastforce
      have "latch_step (e, t1, t2) (e', t1, t2')" using Some r by (simp add: latch_step.right)
      with 2(4) [OF False Some r [symmetric]] False Some r show ?thesis
        by (simp add: converse_rtranclp_into_rtranclp)
    qed
  qed
qed


lemma SDS_ASSERT_debug: "SDS_ASSERT False = sds_assert"
  by (simp add: fun_eq_iff SDS_ASSERT_def sds_assert_def)

lemma SDS_ASSERT_ndebug [simp]: "SDS_ASSERT True c f l e = e"
  by (simp add: SDS_ASSERT_def)

subsection \<open>Properties\<close>


text \<open>
  C25.  The latch is not atomic: when the recorder callback's assertion
  (\<open>recorder_sds.c\<close> line 70) and the controller's assertion after a failed
  close (line 132) both fail and their expansions interleave, the record
  first reports line 70 with \<open>occurred\<close> set, and is later overwritten with
  line 132, although a set \<open>occurred\<close> is meant to freeze the report.
\<close>

theorem latch_report_overwritten:
  "\<exists>s1 s2. latch_step\<^sup>*\<^sup>* (sds_error_init, assert_start False ''recorder_sds.c'' 70,
                              assert_start False ''recorder_sds.c'' 132) s1 \<and>
     latch_step\<^sup>*\<^sup>* s1 s2 \<and>
     err_loc (fst s1) = Some (''recorder_sds.c'', 70) \<and>
     err_loc (fst s2) = Some (''recorder_sds.c'', 132) \<and>
     l_pc (fst (snd s2)) = L_Done \<and> l_pc (snd (snd s2)) = L_Done"
proof -
  let ?s0 = "(sds_error_init, assert_start False ''recorder_sds.c'' 70,
              assert_start False ''recorder_sds.c'' 132)"
  let ?s1 = "latch_sched [True, False, True, True, True] ?s0"
  let ?s2 = "latch_sched [False, False, False] ?s1"
  have "err_loc (fst ?s1) = Some (''recorder_sds.c'', 70)"
       "err_loc (fst ?s2) = Some (''recorder_sds.c'', 132)"
       "l_pc (fst (snd ?s2)) = L_Done" "l_pc (snd (snd ?s2)) = L_Done"
    by (simp_all add: latch_step_thread_def assert_start_def sds_error_init_def err_loc_def)
  with latch_sched_reach [of ?s0] latch_sched_reach [of ?s1] show ?thesis by blast
qed

subsection \<open>Witnesses\<close>


end
