(* ===== verification/SensorDrv.thy ===== *)
theory SensorDrv
  imports Prelude
begin

text \<open>
  The sensor driver of \<open>src/Sensors/Alif_DevKit-E7/Source/sensor_drv.c\<close>:
  a fixed table \<open>Sensors[2]\<close> of logical sensors sharing one physical
  BMI323 device, looked up by name, enabled together, and read one sample at
  a time.  A \<open>sensorId_t\<close> is a pointer into the table: \<open>None\<close> is
  \<open>NULL\<close>, \<open>Some n\<close> is \<open>&Sensors[n]\<close>.  Dereferencing a \<open>NULL\<close>
  configuration pointer and a \<open>memcpy\<close> out of bounds are explicit faults.
\<close>

subsection \<open>Data\<close>

text \<open>The union of \<open>sensorConfig_t\<close>: FIFO parameters or DMA block parameters.\<close>

datatype sensor_params =
    FifoParams (sample_interval: u32) (fifo_size: u32) (data_threshold: u32)
  | BlockParams (block_interval: u32) (block_size: u32) (block_num: u32)

record sensorConfig_t =
  sc_name :: string
  dma_mode :: u32
  sample_size :: u32
  params :: sensor_params

record sensorStatus_t =
  active :: bool
  overflow :: bool

record sensor_t =
  config :: "sensorConfig_t option"
  status :: sensorStatus_t

text \<open>Driver state: the table and the number of physical device initialisations.\<close>

record sensor_drv =
  Sensors :: "sensor_t list"
  hw_inits :: nat

datatype sensor_ret = SENSOR_OK | SENSOR_ERROR

type_synonym sensorId_t = "nat option"

definition status0 :: sensorStatus_t where
  "status0 = \<lparr>active = False, overflow = False\<rparr>"

text \<open>
  \<open>sensorConfig0\<close>/\<open>sensorConfig1\<close>: the \<open>#if SENSORn_DMA_MODE == 0U\<close>
  selects which three macros fill the union.
\<close>

definition sensor_config ::
  "string \<Rightarrow> u32 \<Rightarrow> u32 \<Rightarrow> u32 \<Rightarrow> u32 \<Rightarrow> u32 \<Rightarrow> sensorConfig_t" where
  "sensor_config nm dma ss p1 p2 p3 =
     \<lparr>sc_name = nm, dma_mode = dma, sample_size = ss,
      params = (if dma = 0 then FifoParams p1 p2 p3 else BlockParams p1 p2 p3)\<rparr>"

text \<open>
  The initialiser of \<open>Sensors[2]\<close>: one entry per defined \<open>SENSORn_NAME\<close>,
  in order, the remaining entries zero (a \<open>NULL\<close> configuration).
  \<open>None\<close> for \<open>cn\<close> is an undefined \<open>SENSORn_NAME\<close>.
\<close>

definition Sensors_init :: "sensorConfig_t option \<Rightarrow> sensorConfig_t option \<Rightarrow> sensor_t list" where
  "Sensors_init c0 c1 =
     (let present = filter (\<lambda>c. c \<noteq> None) [c0, c1]
      in map (\<lambda>c. \<lparr>config = c, status = status0\<rparr>) present
         @ replicate (2 - length present) \<lparr>config = None, status = status0\<rparr>)"

definition sensor_drv_init :: "sensorConfig_t option \<Rightarrow> sensorConfig_t option \<Rightarrow> sensor_drv" where
  "sensor_drv_init c0 c1 = \<lparr>Sensors = Sensors_init c0 c1, hw_inits = 0\<rparr>"

subsection \<open>Operations\<close>

text \<open>\<open>sensorGetId\<close>: the loop over \<open>n < sizeof(Sensors)/sizeof(sensor_t)\<close>.\<close>

fun sensor_scan :: "string \<Rightarrow> sensor_t list \<Rightarrow> nat \<Rightarrow> mem_fault + sensorId_t" where
  "sensor_scan nm [] n = Inr None"
| "sensor_scan nm (s # ss) n =
     (case config s of
        None \<Rightarrow> Inl NullDeref
      | Some c \<Rightarrow> if nm = sc_name c then Inr (Some n) else sensor_scan nm ss (Suc n))"

definition sensorGetId :: "sensor_drv \<Rightarrow> string option \<Rightarrow> mem_fault + sensorId_t" where
  "sensorGetId d name = (case name of None \<Rightarrow> Inr None | Some nm \<Rightarrow> sensor_scan nm (Sensors d) 0)"

definition sensorGetConfig :: "sensor_drv \<Rightarrow> sensorId_t \<Rightarrow> sensorConfig_t option" where
  "sensorGetConfig d sid = (case sid of None \<Rightarrow> None | Some n \<Rightarrow> config (Sensors d ! n))"

definition sensorRegisterEvents :: "sensorId_t \<Rightarrow> u32 \<Rightarrow> sensor_ret" where
  "sensorRegisterEvents sid event_mask = SENSOR_ERROR"

text \<open>
  \<open>sensorEnable\<close>: \<open>hw\<close> is the value returned by \<open>bmi323_icm42670_init()\<close>;
  the call is counted whether or not it succeeds.
\<close>

definition activate :: "sensor_t \<Rightarrow> sensor_t" where
  "activate s = s\<lparr>status := (status s)\<lparr>active := True\<rparr>\<rparr>"

definition sensorEnable :: "u32 \<Rightarrow> sensorId_t \<Rightarrow> sensor_drv \<Rightarrow> sensor_ret \<times> sensor_drv" where
  "sensorEnable hw sid d =
     (case sid of
        None \<Rightarrow> (SENSOR_ERROR, d)
      | Some _ \<Rightarrow>
          (let tbl = Sensors d in
           if \<not> active (status (tbl ! 0)) \<or> \<not> active (status (tbl ! 1)) then
             (let d1 = d\<lparr>hw_inits := Suc (hw_inits d)\<rparr> in
              if (hw AND 1) = 1
              then (let t1 = tbl[0 := activate (tbl ! 0)];
                        t2 = t1[1 := activate (t1 ! 1)]
                    in (SENSOR_OK, d1\<lparr>Sensors := t2\<rparr>))
              else (SENSOR_ERROR, d1))
           else (SENSOR_ERROR, d)))"

definition sensorDisable :: "sensorId_t \<Rightarrow> sensor_ret" where
  "sensorDisable sid = SENSOR_ERROR"

definition sensorGetStatus :: "sensor_drv \<Rightarrow> sensorId_t \<Rightarrow> sensorStatus_t" where
  "sensorGetStatus d sid =
     (case sid of
        None \<Rightarrow> status0
      | Some n \<Rightarrow> status0\<lparr>active := active (status (Sensors d ! n)), overflow := False\<rparr>)"

text \<open>
  \<open>memcpy(dst, src + off, n)\<close> on byte images: reading past the source
  object or writing past the destination buffer is a fault.
\<close>

definition memcpy_off :: "u8 list \<Rightarrow> u8 list \<Rightarrow> nat \<Rightarrow> nat \<Rightarrow> mem_fault + u8 list" where
  "memcpy_off dst src off n =
     (if length dst < n then Inl DstOverflow
      else if length src < off + n then Inl SrcOverread
      else Inr (take n (drop off src) @ drop n dst))"

text \<open>
  The driver's sample \<open>xyz_accel_gyro_imu_s\<close> as its byte image; the
  accelerometer fields start at \<open>acc_x\<close>, the gyroscope fields at \<open>gyro_x\<close>
  (three \<open>int16_t\<close> each, accelerometer first).
\<close>

definition acc_x_off :: nat where "acc_x_off = 0"
definition gyro_x_off :: nat where "gyro_x_off = 6"

text \<open>
  Results of the two driver reads for this call: \<open>None\<close> when
  \<open>getBMI323Accel\<close>/\<open>getBMI323Gyro\<close> return non-zero, otherwise the sample.
\<close>

record imu_reads =
  accel_read :: "u8 list option"
  gyro_read :: "u8 list option"

text \<open>
  \<open>sensorReadSamples(id, num_samples, buf, buf_size)\<close>: \<open>buf\<close> is \<open>None\<close>
  for \<open>NULL\<close>, otherwise the bytes of the caller's buffer.  The result is the
  number of samples and the buffer after the call.
\<close>

definition sensorReadSamples ::
  "sensor_drv \<Rightarrow> imu_reads \<Rightarrow> sensorId_t \<Rightarrow> u32 \<Rightarrow> u8 list option \<Rightarrow> u32
   \<Rightarrow> mem_fault + (u32 \<times> u8 list option)" where
  "sensorReadSamples d drv sid num_samples buf buf_size =
     (case sid of
        None \<Rightarrow> Inr (0, buf)
      | Some n \<Rightarrow>
          (if num_samples = 0 then Inr (0, buf)
           else case buf of
             None \<Rightarrow> Inr (0, buf)
           | Some dst \<Rightarrow>
               (case config (Sensors d ! n) of
                  None \<Rightarrow> Inl NullDeref
                | Some cfg \<Rightarrow>
                    if \<not> num_samples * sample_size cfg \<le> buf_size then Inr (0, buf)
                    else if n = 0 then
                      (case accel_read drv of
                         None \<Rightarrow> Inr (0, buf)
                       | Some smp \<Rightarrow>
                           map_sum id (\<lambda>dst'. (1, Some dst'))
                             (memcpy_off dst smp acc_x_off (unat (sample_size cfg))))
                    else if n = 1 then
                      (case gyro_read drv of
                         None \<Rightarrow> Inr (0, buf)
                       | Some smp \<Rightarrow>
                           map_sum id (\<lambda>dst'. (1, Some dst'))
                             (memcpy_off dst smp gyro_x_off (unat (sample_size cfg))))
                    else Inr (0, buf))))"

definition sensorGetBlockData :: "sensorId_t \<Rightarrow> u8 list option" where
  "sensorGetBlockData sid = None"

lemmas sensor_ops [sensor_simps] =
  sensorGetId_def sensorGetConfig_def sensorEnable_def sensorGetStatus_def
  sensorReadSamples_def memcpy_off_def

text \<open>
  A sequence of \<open>sensorEnable\<close> calls (the only operation that changes the
  driver state), with the results in order; and the shape of the table the
  driver keeps: two entries, the configurations of the initialiser, no
  overflow, both logical sensors of the shared device equally active.
\<close>

fun sensor_enable_run :: "(u32 \<times> sensorId_t) list \<Rightarrow> sensor_drv \<Rightarrow> sensor_ret list \<times> sensor_drv" where
  "sensor_enable_run [] d = ([], d)"
| "sensor_enable_run ((hw, sid) # cs) d =
     (case sensorEnable hw sid d of
        (r, d1) \<Rightarrow> (case sensor_enable_run cs d1 of (rs, d2) \<Rightarrow> (r # rs, d2)))"

definition pair_active :: "sensor_drv \<Rightarrow> bool" where
  "pair_active d = active (status (Sensors d ! 0))"

definition sensor_tbl_wf :: "sensor_t list \<Rightarrow> sensor_drv \<Rightarrow> bool" where
  "sensor_tbl_wf tbl0 d \<longleftrightarrow>
     length (Sensors d) = 2 \<and> map config (Sensors d) = map config tbl0 \<and>
     (\<forall>s \<in> set (Sensors d). \<not> overflow (status s)) \<and>
     active (status (Sensors d ! 0)) = active (status (Sensors d ! 1))"

text \<open>An example configuration: FIFO mode, 6-byte samples (three \<open>int16_t\<close>).\<close>

definition cfg_example :: "string \<Rightarrow> sensorConfig_t" where
  "cfg_example nm = sensor_config nm 0 6 10000 16 12"

subsection \<open>Lemmas\<close>

lemma length_Sensors_init [simp]: "length (Sensors_init c0 c1) = 2"
  by (simp add: Sensors_init_def)

lemma sensor_scan_Some:
  "sensor_scan nm ss k = Inr (Some n) \<Longrightarrow>
     k \<le> n \<and> n < k + length ss \<and> map_option sc_name (config (ss ! (n - k))) = Some nm"
proof (induction nm ss k rule: sensor_scan.induct)
  case (1 nm n)
  then show ?case by simp
next
  case (2 nm s ss n')
  then show ?case
    by (auto split: option.splits if_splits simp: nth_Cons')
qed

lemma sensor_scan_full:
  "\<forall>s \<in> set ss. config s \<noteq> None \<Longrightarrow> nm \<in> sc_name ` Option.these (config ` set ss) \<Longrightarrow>
     \<exists>n. sensor_scan nm ss k = Inr (Some n)"
proof (induction nm ss k rule: sensor_scan.induct)
  case (1 nm n)
  then show ?case by (simp add: Option.these_def)
next
  case (2 nm s ss n')
  then show ?case
    by (auto split: option.splits simp: Option.these_def)
qed

lemma sensorEnable_ok:
  assumes "length (Sensors d) = 2" "sensorEnable hw sid d = (SENSOR_OK, d')"
  shows "\<forall>n<2. active (sensorGetStatus d' (Some n))" "hw_inits d' = Suc (hw_inits d)"
    "length (Sensors d') = 2"
  using assms by (auto simp: sensorEnable_def sensorGetStatus_def activate_def Let_def
      nth_list_update less_2_cases_iff split: option.splits if_splits)

lemma memcpy_off_Inr:
  "memcpy_off dst src off n = Inr dst' \<Longrightarrow>
     dst' = take n (drop off src) @ drop n dst \<and> length dst' = length dst"
  by (auto simp: memcpy_off_def split: if_splits)

lemma map_sum_memcpy_Inr:
  "map_sum id (\<lambda>dst'. (1 :: u32, Some dst')) (memcpy_off dst src off n) = Inr (k, buf') \<Longrightarrow>
     k = 1 \<and> buf' = Some (take n (drop off src) @ drop n dst)"
  by (cases "memcpy_off dst src off n") (auto dest: memcpy_off_Inr)

lemma map_sum_memcpy_DstOverflow:
  "map_sum id (\<lambda>dst'. (1 :: u32, Some dst')) (memcpy_off dst src off n) = Inl DstOverflow \<Longrightarrow>
     length dst < n"
  by (auto simp: memcpy_off_def split: if_splits)

lemma sample_check_nowrap:
  "unat num * unat ss < 2 ^ 32 \<Longrightarrow> (num * ss \<le> (bs :: u32)) = (unat num * unat ss \<le> unat bs)"
  by (simp add: word_le_nat_alt unat_u32_mult_nowrap)

lemmas example_simps = cfg_example_def sensor_config_def sensor_drv_init_def Sensors_init_def
  status0_def acc_x_off_def gyro_x_off_def

subsection \<open>Properties\<close>

text \<open>
  C8. Shared-device activation: a successful \<open>sensorEnable\<close> on either logical
  sensor performs one physical initialisation and leaves both logical sensors
  reporting \<open>active\<close> through \<open>sensorGetStatus\<close>.
\<close>

theorem sensorEnable_activates_all:
  assumes "length (Sensors d) = 2" and "sensorEnable hw sid d = (SENSOR_OK, d')"
  shows "active (sensorGetStatus d' (Some 0)) \<and> active (sensorGetStatus d' (Some 1)) \<and>
         hw_inits d' = Suc (hw_inits d)"
  using sensorEnable_ok [OF assms] by simp

theorem sensorEnable_activates_all_witness:
  "active (sensorGetStatus (snd (sensorEnable 1 (Some 0)
       (sensor_drv_init (Some (cfg_example ''Accelerometer'')) (Some (cfg_example ''Gyroscope''))))) (Some 1))"
proof -
  let ?d = "sensor_drv_init (Some (cfg_example ''Accelerometer'')) (Some (cfg_example ''Gyroscope''))"
  have ok: "sensorEnable 1 (Some 0) ?d = (SENSOR_OK, snd (sensorEnable 1 (Some 0) ?d))"
    by (simp add: sensorEnable_def example_simps activate_def)
  show ?thesis
    using sensorEnable_activates_all [OF _ ok] by (simp add: sensor_drv_init_def)
qed

text \<open>
  C9. After a successful \<open>sensorEnable\<close> every further \<open>sensorEnable\<close>, for
  either sensor, fails and changes nothing: the "only inactive" guard covers
  both co-located sensors, so enabling sensor 0 and then sensor 1 returns an
  error on the second call.
\<close>

theorem sensorEnable_second_fails:
  assumes "length (Sensors d) = 2" and "sensorEnable hw sid d = (SENSOR_OK, d')"
  shows "sensorEnable hw' sid' d' = (SENSOR_ERROR, d')"
  using sensorEnable_ok [OF assms]
  by (auto simp: sensorEnable_def sensorGetStatus_def split: option.splits)

theorem sensorEnable_second_fails_witness:
  "sensorEnable 1 (Some 1) (snd (sensorEnable 1 (Some 0)
     (sensor_drv_init (Some (cfg_example ''Accelerometer'')) (Some (cfg_example ''Gyroscope'')))))
   = (SENSOR_ERROR, snd (sensorEnable 1 (Some 0)
     (sensor_drv_init (Some (cfg_example ''Accelerometer'')) (Some (cfg_example ''Gyroscope'')))))"
proof -
  let ?d = "sensor_drv_init (Some (cfg_example ''Accelerometer'')) (Some (cfg_example ''Gyroscope''))"
  have ok: "sensorEnable 1 (Some 0) ?d = (SENSOR_OK, snd (sensorEnable 1 (Some 0) ?d))"
    by (simp add: sensorEnable_def example_simps activate_def)
  show ?thesis
    using sensorEnable_second_fails [OF _ ok] by (simp add: sensor_drv_init_def)
qed

text \<open>
  C10. Capacity check: when the 32-bit product \<open>num_samples * sample_size\<close>
  does not wrap and the stated buffer size is below it, \<open>sensorReadSamples\<close>
  returns 0 and leaves the buffer untouched.
\<close>

theorem sensorReadSamples_small_buffer:
  assumes "config (Sensors d ! n) = Some cfg"
    and "unat num * unat (sample_size cfg) < 2 ^ 32"
    and "unat buf_size < unat num * unat (sample_size cfg)"
  shows "sensorReadSamples d drv (Some n) num buf buf_size = Inr (0, buf)"
  using assms by (auto simp: sensorReadSamples_def sample_check_nowrap split: option.splits)

theorem sensorReadSamples_small_buffer_witness:
  "sensorReadSamples (sensor_drv_init (Some (cfg_example ''Accelerometer'')) None)
     \<lparr>accel_read = Some (replicate 12 7), gyro_read = None\<rparr> (Some 0) 2 (Some [0, 0, 0, 0, 0]) 5
   = Inr (0, Some [0, 0, 0, 0, 0])"
  by (rule sensorReadSamples_small_buffer [where cfg = "cfg_example ''Accelerometer''"])
     (simp_all add: example_simps)

text \<open>
  C11. The capacity check wraps: \<open>num_samples * sample_size\<close> is computed in
  32 bits, so a caller that passes its true buffer size, smaller than the
  requested bytes, can pass the check, and the copy of one sample then writes
  past the end of its buffer (sample size 6, 715827883 samples, a 2-byte
  buffer: the product wraps to 2).
\<close>

theorem sensorReadSamples_wrap_overflow:
  "unat (2 :: u32) < unat (0x2AAAAAAB :: u32) * unat (sample_size (cfg_example ''Accelerometer'')) \<and>
   sensorReadSamples (sensor_drv_init (Some (cfg_example ''Accelerometer'')) None)
     \<lparr>accel_read = Some (replicate 12 7), gyro_read = None\<rparr> (Some 0) 0x2AAAAAAB (Some [0, 0]) 2
   = Inl DstOverflow"
  by (simp add: sensorReadSamples_def example_simps memcpy_off_def)

text \<open>
  C12. One sample per call: whatever is requested, \<open>sensorReadSamples\<close>
  returns at most 1; when it returns 1 it has copied exactly
  \<open>sample_size\<close> bytes of the sample read from the driver, starting at the
  accelerometer fields for \<open>Sensors[0]\<close> and at the gyroscope fields
  otherwise, over the head of the caller's buffer; when it returns 0 the
  buffer is unchanged.
\<close>

theorem sensorReadSamples_one_sample:
  assumes "sensorReadSamples d drv (Some n) num (Some dst) bs = Inr (k, buf')"
  shows "k \<le> 1 \<and> (k = 0 \<longrightarrow> buf' = Some dst) \<and>
         (k = 1 \<longrightarrow> (\<exists>cfg smp. config (Sensors d ! n) = Some cfg \<and>
             (if n = 0 then accel_read drv else gyro_read drv) = Some smp \<and>
             buf' = Some (take (unat (sample_size cfg))
                             (drop (if n = 0 then acc_x_off else gyro_x_off) smp)
                          @ drop (unat (sample_size cfg)) dst)))"
  using assms
  by (auto simp: sensorReadSamples_def split: option.splits if_splits
           dest!: map_sum_memcpy_Inr)

theorem sensorReadSamples_one_sample_witness:
  "sensorReadSamples (sensor_drv_init (Some (cfg_example ''Accelerometer'')) None)
     \<lparr>accel_read = Some [1, 2, 3, 4, 5, 6, 7, 8, 9, 10, 11, 12], gyro_read = None\<rparr>
     (Some 0) 4 (Some (replicate 24 0)) 24
   = Inr (1, Some ([1, 2, 3, 4, 5, 6] @ replicate 18 0))"
proof -
  let ?d = "sensor_drv_init (Some (cfg_example ''Accelerometer'')) None"
  let ?drv = "\<lparr>accel_read = Some [1, 2, 3, 4, 5, 6, 7, 8, 9, 10, 11, 12 :: u8], gyro_read = None\<rparr>"
  have r: "sensorReadSamples ?d ?drv (Some 0) 4 (Some (replicate 24 0)) 24
           = Inr (1, Some ([1, 2, 3, 4, 5, 6] @ replicate 18 0))"
    by (simp add: sensorReadSamples_def example_simps memcpy_off_def)
  from sensorReadSamples_one_sample [OF r] r show ?thesis by simp
qed

text \<open>
  C13. A caller that passes its true buffer size never gets a write past its
  buffer when the 32-bit product does not wrap.
\<close>

theorem sensorReadSamples_no_overflow:
  assumes "length dst = unat bs" and "config (Sensors d ! n) = Some cfg"
    and "unat num * unat (sample_size cfg) < 2 ^ 32"
  shows "sensorReadSamples d drv (Some n) num (Some dst) bs \<noteq> Inl DstOverflow"
proof
  assume f: "sensorReadSamples d drv (Some n) num (Some dst) bs = Inl DstOverflow"
  then have chk: "num \<noteq> 0" "num * sample_size cfg \<le> bs"
    and cp: "length dst < unat (sample_size cfg)"
    using assms(2)
    by (auto simp: sensorReadSamples_def split: option.splits if_splits
             dest!: map_sum_memcpy_DstOverflow)
  from chk assms(3) have "unat num * unat (sample_size cfg) \<le> unat bs"
    by (simp add: sample_check_nowrap)
  moreover from chk(1) have "1 \<le> unat num"
    by (simp add: unat_gt_0 Suc_le_eq)
  ultimately have "unat (sample_size cfg) \<le> unat bs"
    by (metis le_trans mult_1 mult_le_mono1)
  with cp assms(1) show False by simp
qed

theorem sensorReadSamples_no_overflow_witness:
  "sensorReadSamples (sensor_drv_init (Some (cfg_example ''Accelerometer'')) None)
     \<lparr>accel_read = Some (replicate 12 7), gyro_read = None\<rparr> (Some 0) 3 (Some (replicate 20 0)) 20
   \<noteq> Inl DstOverflow"
  by (rule sensorReadSamples_no_overflow [where cfg = "cfg_example ''Accelerometer''"])
     (simp_all add: example_simps)

text \<open>
  C14. Name lookup is sound: a handle returned by \<open>sensorGetId\<close> points into
  the table, at an entry whose configured name is the one looked up; and on a
  table whose two entries are both configured the lookup never faults and
  finds every configured name.
\<close>

theorem sensorGetId_sound_complete:
  "(sensorGetId d (Some nm) = Inr (Some n) \<longrightarrow>
      n < length (Sensors d) \<and> map_option sc_name (config (Sensors d ! n)) = Some nm) \<and>
   ((\<forall>s \<in> set (Sensors d). config s \<noteq> None) \<and>
      nm \<in> sc_name ` Option.these (config ` set (Sensors d)) \<longrightarrow>
      (\<exists>n. sensorGetId d (Some nm) = Inr (Some n)))"
  using sensor_scan_Some [of nm "Sensors d" 0 n] sensor_scan_full [of "Sensors d" nm 0]
  by (simp add: sensorGetId_def)

theorem sensorGetId_sound_complete_witness:
  "sensorGetId (sensor_drv_init (Some (cfg_example ''Accelerometer'')) (Some (cfg_example ''Gyroscope'')))
     (Some ''Gyroscope'') = Inr (Some 1) \<and>
   map_option sc_name (config (Sensors (sensor_drv_init (Some (cfg_example ''Accelerometer''))
     (Some (cfg_example ''Gyroscope''))) ! 1)) = Some ''Gyroscope''"
proof -
  let ?d = "sensor_drv_init (Some (cfg_example ''Accelerometer'')) (Some (cfg_example ''Gyroscope''))"
  have g: "sensorGetId ?d (Some ''Gyroscope'') = Inr (Some 1)"
    by (simp add: sensorGetId_def example_simps)
  with sensorGetId_sound_complete [of ?d "''Gyroscope''" 1] show ?thesis by simp
qed

text \<open>
  C15. With only one sensor configured, the second table entry has a
  \<open>NULL\<close> configuration and \<open>sensorGetId\<close> dereferences it for every name
  that is not the configured one.
\<close>

theorem sensorGetId_single_config_fault:
  assumes "(c0, c1) = (Some c, None) \<or> (c0, c1) = (None, Some c)" and "nm \<noteq> sc_name c"
  shows "sensorGetId (sensor_drv_init c0 c1) (Some nm) = Inl NullDeref"
  using assms by (auto simp: sensorGetId_def sensor_drv_init_def Sensors_init_def)

theorem sensorGetId_single_config_fault_witness:
  "sensorGetId (sensor_drv_init (Some (cfg_example ''Accelerometer'')) None) (Some ''Gyroscope'')
     = Inl NullDeref"
  by (rule sensorGetId_single_config_fault [where c = "cfg_example ''Accelerometer''"])
     (simp_all add: cfg_example_def sensor_config_def)

text \<open>
  C16. With only \<open>SENSOR1\<close> configured, its configuration is placed in
  \<open>Sensors[0]\<close>, so \<open>sensorGetId\<close> returns \<open>&Sensors[0]\<close> for it and
  \<open>sensorReadSamples\<close> reads it through the accelerometer path, whatever the
  gyroscope read returns.
\<close>

theorem sensor1_only_reads_accel:
  "sensorGetId (sensor_drv_init None (Some c)) (Some (sc_name c)) = Inr (Some 0) \<and>
   sensorReadSamples (sensor_drv_init None (Some c)) drv (Some 0) num buf bs =
   sensorReadSamples (sensor_drv_init None (Some c)) (drv\<lparr>gyro_read := g\<rparr>) (Some 0) num buf bs"
  by (simp add: sensorGetId_def sensorReadSamples_def sensor_drv_init_def Sensors_init_def
      split: option.splits)

subsection \<open>The sensor table under enable calls\<close>

lemma sensorEnable_wf:
  assumes "sensor_tbl_wf tbl0 d" "sensorEnable hw sid d = (r, d')"
  shows "sensor_tbl_wf tbl0 d' \<and>
         (r = SENSOR_OK \<longleftrightarrow> \<not> pair_active d \<and> pair_active d') \<and>
         (pair_active d' \<longleftrightarrow> pair_active d \<or> r = SENSOR_OK)"
proof -
  obtain a b where t: "Sensors d = [a, b]"
    using assms(1) unfolding sensor_tbl_wf_def
    by (metis (no_types) One_nat_def Suc_1 length_0_conv length_Suc_conv)
  have e: "active (status a) = active (status b)" "\<not> overflow (status a)" "\<not> overflow (status b)"
    "map config tbl0 = [config a, config b]"
    using assms(1) t by (simp_all add: sensor_tbl_wf_def)
  show ?thesis
    using assms(2) t e
    by (auto simp: sensorEnable_def sensor_tbl_wf_def pair_active_def activate_def Let_def
        split: option.splits if_splits)
qed

lemma sensor_enable_run_wf:
  "sensor_tbl_wf tbl0 d \<Longrightarrow> sensor_enable_run cs d = (rs, d') \<Longrightarrow>
   sensor_tbl_wf tbl0 d' \<and> count_list rs SENSOR_OK \<le> (if pair_active d then 0 else 1) \<and>
   (pair_active d' \<longleftrightarrow> pair_active d \<or> SENSOR_OK \<in> set rs)"
proof (induction cs arbitrary: d rs d')
  case Nil then show ?case by simp
next
  case (Cons c cs)
  obtain hw sid where c: "c = (hw, sid)" by fastforce
  obtain r d1 where e: "sensorEnable hw sid d = (r, d1)" by fastforce
  obtain rs1 d2 where q: "sensor_enable_run cs d1 = (rs1, d2)" by fastforce
  note E = sensorEnable_wf [OF Cons.prems(1) e]
  note IH = Cons.IH [OF E [THEN conjunct1] q]
  from Cons.prems(2) c e q have "rs = r # rs1" "d' = d2" by simp_all
  with E IH show ?case by (cases r) auto
qed

lemma sensor_drv_init_wf: "sensor_tbl_wf (Sensors_init c0 c1) (sensor_drv_init c0 c1)"
  by (simp add: sensor_tbl_wf_def sensor_drv_init_def Sensors_init_def status0_def Let_def
      nth_append)

text \<open>
  C26.  Type of the sensor table: after any sequence of \<open>sensorEnable\<close>
  calls on the initial driver, the table still has two entries with the
  configurations of the initialiser, no overflow flag, and both logical
  sensors equally active; at most one call succeeds, and the pair is active
  exactly when one did.
\<close>

theorem sensor_table_type:
  assumes "sensor_enable_run cs (sensor_drv_init c0 c1) = (rs, d)"
  shows "sensor_tbl_wf (Sensors_init c0 c1) d \<and> count_list rs SENSOR_OK \<le> 1 \<and>
         (active (status (Sensors d ! 0)) \<longleftrightarrow> SENSOR_OK \<in> set rs)"
proof -
  have "\<not> pair_active (sensor_drv_init c0 c1)"
    by (simp add: pair_active_def sensor_drv_init_def Sensors_init_def status0_def Let_def nth_append)
  with sensor_enable_run_wf [OF sensor_drv_init_wf assms] show ?thesis
    by (simp add: pair_active_def)
qed

text \<open>
  C27.  Round trip of the name lookup: with two configured sensors of
  distinct names, looking up a configured name and asking for the
  configuration of the handle gives back that configuration, and each
  table slot's configured name leads back to its handle.
\<close>

theorem sensor_name_id_config_roundtrip:
  assumes "sc_name c0 \<noteq> sc_name c1"
  shows "(\<forall>c \<in> {c0, c1}. map_sum id (sensorGetConfig (sensor_drv_init (Some c0) (Some c1)))
            (sensorGetId (sensor_drv_init (Some c0) (Some c1)) (Some (sc_name c))) = Inr (Some c)) \<and>
         (\<forall>n < 2. \<exists>c. sensorGetConfig (sensor_drv_init (Some c0) (Some c1)) (Some n) = Some c \<and>
            sensorGetId (sensor_drv_init (Some c0) (Some c1)) (Some (sc_name c)) = Inr (Some n))"
  using assms
  by (auto simp: sensorGetId_def sensorGetConfig_def sensor_drv_init_def Sensors_init_def
      less_Suc_eq numeral_2_eq_2)

theorem sensor_table_type_witness:
  "count_list (fst (sensor_enable_run [(1, Some 0), (1, Some 1), (0, Some 0)]
      (sensor_drv_init (Some (cfg_example ''Accelerometer'')) (Some (cfg_example ''Gyroscope''))))) SENSOR_OK \<le> 1 \<and>
   active (status (Sensors (snd (sensor_enable_run [(1, Some 0), (1, Some 1), (0, Some 0)]
      (sensor_drv_init (Some (cfg_example ''Accelerometer'')) (Some (cfg_example ''Gyroscope''))))) ! 0))"
proof -
  let ?r = "sensor_enable_run [(1, Some 0), (1, Some 1), (0, Some 0)]
      (sensor_drv_init (Some (cfg_example ''Accelerometer'')) (Some (cfg_example ''Gyroscope'')))"
  have p: "?r = (fst ?r, snd ?r)" by simp
  have "fst ?r = [SENSOR_OK, SENSOR_ERROR, SENSOR_ERROR]"
    by (simp add: sensorEnable_def example_simps status0_def activate_def Let_def)
  with sensor_table_type [OF p] show ?thesis by simp
qed

theorem sensor_name_id_config_roundtrip_witness:
  "sc_name (cfg_example ''Accelerometer'') \<noteq> sc_name (cfg_example ''Gyroscope'') \<and>
   map_sum id (sensorGetConfig (sensor_drv_init (Some (cfg_example ''Accelerometer'')) (Some (cfg_example ''Gyroscope''))))
     (sensorGetId (sensor_drv_init (Some (cfg_example ''Accelerometer'')) (Some (cfg_example ''Gyroscope'')))
       (Some ''Gyroscope'')) = Inr (Some (cfg_example ''Gyroscope''))"
proof -
  have n: "sc_name (cfg_example ''Accelerometer'') \<noteq> sc_name (cfg_example ''Gyroscope'')"
    by (simp add: cfg_example_def sensor_config_def)
  have g: "sc_name (cfg_example ''Gyroscope'') = ''Gyroscope''" by (simp add: cfg_example_def sensor_config_def)
  have "cfg_example ''Gyroscope'' \<in> {cfg_example ''Accelerometer'', cfg_example ''Gyroscope''}" by simp
  from bspec [OF conjunct1 [OF sensor_name_id_config_roundtrip [OF n]] this] n g show ?thesis by simp
qed

end
