(* ===== verification/RecControl.thy ===== *)
theory RecControl
  imports ErrorReport
begin

text \<open>
  The recording control thread of \<open>src/Hardware/ModelTest/recorder_sds.c\<close>
  (\<open>rec_control\<close>), and the parts of its loop body that the thread of
  \<open>src/Hardware/TestData/rec_management.c\<close> repeats verbatim (the LED0
  heartbeat and the push-button edge detection).  The SDS recorder is an
  interface: a record of the three functions the thread calls, over an
  arbitrary recorder state \<open>'t\<close>.  The controller state records the
  thread's locals, the globals it writes, and, as a ghost, the log of the
  recorder calls and \<open>recActive\<close> writes it makes in order.
\<close>

subsection \<open>Recorder interface and controller state\<close>

record 't sds_rec_api =
  api_init :: "'t \<Rightarrow> int \<times> 't"
  api_open :: "string \<Rightarrow> u32 \<Rightarrow> u32 \<Rightarrow> 't \<Rightarrow> rec_id option \<times> 't"
  api_close :: "rec_id option \<Rightarrow> 't \<Rightarrow> int \<times> 't"

datatype rec_call = CallOpen string | CallClose "rec_id option" | SetActive u8 | PollDone nat

record 't rec_ctl =
  btn_prev :: u8
  led0_cnt :: u8
  led0_val :: u8
  led0 :: u32
  led1 :: u32
  recActive :: u8
  recDone :: u8
  recId_in :: "rec_id option"
  recId_out :: "rec_id option"
  sds_error :: sds_error_t
  sds :: 't
  calls :: "rec_call list"

text \<open>Configuration of \<open>recorder_sds.c\<close>: buffer sizes and I/O thresholds.\<close>

definition REC_BUF_SIZE_MODEL_IN :: u32 where "REC_BUF_SIZE_MODEL_IN = 8192"
definition REC_BUF_SIZE_MODEL_OUT :: u32 where "REC_BUF_SIZE_MODEL_OUT = 576"
definition REC_IO_THRESHOLD_MODEL_IN :: u32 where
  "REC_IO_THRESHOLD_MODEL_IN = REC_BUF_SIZE_MODEL_IN - 512"
definition REC_IO_THRESHOLD_MODEL_OUT :: u32 where
  "REC_IO_THRESHOLD_MODEL_OUT = REC_BUF_SIZE_MODEL_OUT - 64"

text \<open>
  The state when the thread starts: the globals are zero-initialised, the
  locals \<open>btn_prev\<close>, \<open>led0_cnt\<close>, \<open>led0_val\<close> are 0, the LEDs are off.
\<close>

definition rec_ctl_boot :: "'t \<Rightarrow> 't rec_ctl" where
  "rec_ctl_boot t =
     \<lparr>btn_prev = 0, led0_cnt = 0, led0_val = 0, led0 = 0, led1 = vioLEDoff,
      recActive = 0, recDone = 0, recId_in = None, recId_out = None,
      sds_error = sds_error_init, sds = t, calls = []\<rparr>"

subsection \<open>Steps of the loop body\<close>

text \<open>\<open>status = sdsRecInit(recorder_event_callback); sds_assert(status == SDS_REC_OK);\<close>\<close>

definition rec_init :: "string \<Rightarrow> u32 \<Rightarrow> 't sds_rec_api \<Rightarrow> 't rec_ctl \<Rightarrow> 't rec_ctl" where
  "rec_init src l api s =
     (case api_init api (sds s) of
        (st, t) \<Rightarrow> s\<lparr>sds := t, sds_error := sds_assert (st = SDS_REC_OK) src l (sds_error s)\<rparr>)"

text \<open>\<open>if (led0_cnt++ >= 10U) { led0_cnt = 0U; led0_val ^= 1U; vioSetSignal(vioLED0, led0_val); }\<close>\<close>

definition led0_heartbeat :: "'t rec_ctl \<Rightarrow> 't rec_ctl" where
  "led0_heartbeat s =
     (let old = led0_cnt s; s1 = s\<lparr>led0_cnt := old + 1\<rparr> in
      if 10 \<le> old
      then (let v = led0_val s1 XOR 1 in s1\<lparr>led0_cnt := 0, led0_val := v, led0 := ucast v\<rparr>)
      else s1)"

text \<open>\<open>recId = sdsRecOpen(name, buf, size, threshold); sds_assert(recId != NULL);\<close>\<close>

definition call_open ::
  "'t sds_rec_api \<Rightarrow> string \<Rightarrow> u32 \<Rightarrow> string \<Rightarrow> u32 \<Rightarrow> u32 \<Rightarrow> 't rec_ctl
   \<Rightarrow> rec_id option \<times> 't rec_ctl" where
  "call_open api src l nm bsize thr s =
     (case api_open api nm bsize thr (sds s) of
        (rid, t) \<Rightarrow>
          (rid, s\<lparr>sds := t, sds_error := sds_assert (rid \<noteq> None) src l (sds_error s),
                  calls := calls s @ [CallOpen nm]\<rparr>))"

text \<open>\<open>status = sdsRecClose(recId); sds_assert(status == SDS_REC_OK);\<close>\<close>

definition call_close ::
  "'t sds_rec_api \<Rightarrow> string \<Rightarrow> u32 \<Rightarrow> rec_id option \<Rightarrow> 't rec_ctl \<Rightarrow> 't rec_ctl" where
  "call_close api src l rid s =
     (case api_close api rid (sds s) of
        (st, t) \<Rightarrow>
          s\<lparr>sds := t, sds_error := sds_assert (st = SDS_REC_OK) src l (sds_error s),
            calls := calls s @ [CallClose rid]\<rparr>)"

definition set_active :: "u8 \<Rightarrow> 't rec_ctl \<Rightarrow> 't rec_ctl" where
  "set_active v s = s\<lparr>recActive := v, calls := calls s @ [SetActive v]\<rparr>"

text \<open>
  \<open>btn_val = vioGetSignal(vioBUTTON0); if (btn_val != btn_prev) { btn_prev =
  btn_val; if (btn_val == vioBUTTON0) { if (recActive == 0U) start else stop } }\<close>.
  The start and stop branches are parameters: they differ between the two
  threads, and the stop branch of \<open>rec_management.c\<close> may block forever.
\<close>

definition button_step ::
  "('t rec_ctl \<Rightarrow> 't rec_ctl option) \<Rightarrow> ('t rec_ctl \<Rightarrow> 't rec_ctl option) \<Rightarrow> u32
   \<Rightarrow> 't rec_ctl \<Rightarrow> 't rec_ctl option" where
  "button_step start stop inputs s =
     (let btn_val = (ucast (vioGetSignal vioBUTTON0 inputs) :: u8) in
      if btn_val \<noteq> btn_prev s then
        (let s1 = s\<lparr>btn_prev := btn_val\<rparr> in
         if ucast btn_val = vioBUTTON0
         then (if recActive s1 = 0 then start s1 else stop s1)
         else Some s1)
      else Some s)"

subsection \<open>The \<open>rec_control\<close> thread\<close>

definition rec_start_model :: "'t sds_rec_api \<Rightarrow> 't rec_ctl \<Rightarrow> 't rec_ctl" where
  "rec_start_model api s =
     (let s1 = set_active 1 s;
          (rin, s2) = call_open api ''recorder_sds.c'' 116 ''Model_Input''
                        REC_BUF_SIZE_MODEL_IN REC_IO_THRESHOLD_MODEL_IN s1;
          (rout, s3) = call_open api ''recorder_sds.c'' 123 ''Model_Output''
                        REC_BUF_SIZE_MODEL_OUT REC_IO_THRESHOLD_MODEL_OUT (s2\<lparr>recId_in := rin\<rparr>)
      in s3\<lparr>recId_out := rout, led1 := vioLEDon\<rparr>)"

definition rec_stop_model :: "'t sds_rec_api \<Rightarrow> 't rec_ctl \<Rightarrow> 't rec_ctl" where
  "rec_stop_model api s =
     (let s1 = set_active 0 s;
          s2 = call_close api ''recorder_sds.c'' 132 (recId_in s1) s1;
          s3 = call_close api ''recorder_sds.c'' 136 (recId_out s2) s2
      in s3\<lparr>led1 := vioLEDoff\<rparr>)"

text \<open>One iteration of the \<open>for (;;)\<close> loop; \<open>osDelay(100U)\<close> has no effect on the state.\<close>

definition rec_control_tick :: "'t sds_rec_api \<Rightarrow> 't rec_ctl \<Rightarrow> u32 \<Rightarrow> 't rec_ctl option" where
  "rec_control_tick api s inputs =
     button_step (\<lambda>s. Some (rec_start_model api s)) (\<lambda>s. Some (rec_stop_model api s)) inputs
       (led0_heartbeat s)"

text \<open>A run of loop iterations, one input per iteration; \<open>None\<close> if an iteration never returns.\<close>

fun ctl_run :: "('s \<Rightarrow> 'i \<Rightarrow> 's option) \<Rightarrow> 'i list \<Rightarrow> 's \<Rightarrow> 's option" where
  "ctl_run step [] s = Some s"
| "ctl_run step (i # ins) s = (case step s i of None \<Rightarrow> None | Some s' \<Rightarrow> ctl_run step ins s')"

text \<open>The thread: initialisation, then the loop for as many iterations as inputs are given.\<close>

definition rec_control :: "'t sds_rec_api \<Rightarrow> 't \<Rightarrow> u32 list \<Rightarrow> 't rec_ctl option" where
  "rec_control api t ins =
     ctl_run (rec_control_tick api) ins (rec_init ''recorder_sds.c'' 92 api (rec_ctl_boot t))"

subsection \<open>Invariant\<close>

fun is_open :: "rec_call \<Rightarrow> bool" where
  "is_open (CallOpen _) = True"
| "is_open _ = False"

fun is_close :: "rec_call \<Rightarrow> bool" where
  "is_close (CallClose _) = True"
| "is_close _ = False"

definition n_opens :: "rec_call list \<Rightarrow> nat" where
  "n_opens cs = length (filter is_open cs)"

definition n_closes :: "rec_call list \<Rightarrow> nat" where
  "n_closes cs = length (filter is_close cs)"

definition ctl_inv :: "'t rec_ctl \<Rightarrow> bool" where
  "ctl_inv s \<longleftrightarrow>
     (recActive s = 0 \<or> recActive s = 1) \<and> unat (led0_cnt s) \<le> 10 \<and>
     n_opens (calls s) = n_closes (calls s) + (if recActive s = 0 then 0 else 2) \<and>
     led1 s = (if recActive s = 0 then vioLEDoff else vioLEDon)"

subsection \<open>Lemmas\<close>

lemma call_open_eq:
  "call_open api src l nm sz thr s =
     (fst (api_open api nm sz thr (sds s)),
      s\<lparr>sds := snd (api_open api nm sz thr (sds s)),
        sds_error := sds_assert (fst (api_open api nm sz thr (sds s)) \<noteq> None) src l (sds_error s),
        calls := calls s @ [CallOpen nm]\<rparr>)"
  by (simp add: call_open_def split: prod.split)

lemma call_close_eq:
  "call_close api src l rid s =
      s\<lparr>sds := snd (api_close api rid (sds s)),
        sds_error := sds_assert (fst (api_close api rid (sds s)) = SDS_REC_OK) src l (sds_error s),
        calls := calls s @ [CallClose rid]\<rparr>"
  by (simp add: call_close_def split: prod.split)

lemmas ctl_unfold = call_open_eq call_close_eq set_active_def rec_start_model_def rec_stop_model_def
  Let_def case_prod_unfold

lemma heartbeat_frame [simp]:
  "recActive (led0_heartbeat s) = recActive s" "calls (led0_heartbeat s) = calls s"
  "led1 (led0_heartbeat s) = led1 s" "btn_prev (led0_heartbeat s) = btn_prev s"
  "recId_in (led0_heartbeat s) = recId_in s" "recId_out (led0_heartbeat s) = recId_out s"
  "sds (led0_heartbeat s) = sds s" "sds_error (led0_heartbeat s) = sds_error s"
  "recDone (led0_heartbeat s) = recDone s"
  by (simp_all add: led0_heartbeat_def Let_def)

lemma heartbeat_cnt_bound:
  "unat (led0_cnt s) \<le> 10 \<Longrightarrow> unat (led0_cnt (led0_heartbeat s)) \<le> 10"
  by (auto simp: led0_heartbeat_def Let_def word_le_nat_alt unat_word_ariths)

lemma n_calls_simps [simp]:
  "n_opens (cs @ ds) = n_opens cs + n_opens ds" "n_closes (cs @ ds) = n_closes cs + n_closes ds"
  "n_opens (c # cs) = (if is_open c then 1 else 0) + n_opens cs"
  "n_closes (c # cs) = (if is_close c then 1 else 0) + n_closes cs"
  "n_opens [] = 0" "n_closes [] = 0"
  by (simp_all add: n_opens_def n_closes_def)

lemma start_model_inv: "ctl_inv s \<Longrightarrow> recActive s = 0 \<Longrightarrow> ctl_inv (rec_start_model api s)"
  by (simp add: ctl_inv_def ctl_unfold)

lemma stop_model_inv: "ctl_inv s \<Longrightarrow> recActive s \<noteq> 0 \<Longrightarrow> ctl_inv (rec_stop_model api s)"
  by (auto simp add: ctl_inv_def ctl_unfold)

lemma ctl_inv_btn_prev [simp]: "ctl_inv (s\<lparr>btn_prev := b\<rparr>) = ctl_inv s"
  by (simp add: ctl_inv_def)

lemma ctl_inv_heartbeat: "ctl_inv s \<Longrightarrow> ctl_inv (led0_heartbeat s)"
  using heartbeat_cnt_bound[of s] by (simp add: ctl_inv_def)

lemma button_step_inv:
  assumes "\<And>s. ctl_inv s \<Longrightarrow> recActive s = 0 \<Longrightarrow> start s = Some s' \<Longrightarrow> ctl_inv s'"
    and "\<And>s. ctl_inv s \<Longrightarrow> recActive s \<noteq> 0 \<Longrightarrow> stop s = Some s' \<Longrightarrow> ctl_inv s'"
    and "ctl_inv s" and "button_step start stop i s = Some s'"
  shows "ctl_inv s'"
proof -
  let ?s1 = "s\<lparr>btn_prev := ucast (vioGetSignal vioBUTTON0 i)\<rparr>"
  have "ctl_inv ?s1" "recActive ?s1 = recActive s" using assms(3) by simp_all
  then show ?thesis
    using assms(4) assms(1)[of ?s1] assms(2)[of ?s1]
    by (auto simp: button_step_def Let_def split: if_splits)
qed

lemma tick_inv:
  assumes "ctl_inv s" and "rec_control_tick api s i = Some s'"
  shows "ctl_inv s'"
proof (rule button_step_inv)
  show "ctl_inv (led0_heartbeat s)" using assms(1) by (rule ctl_inv_heartbeat)
  show "button_step (\<lambda>s. Some (rec_start_model api s)) (\<lambda>s. Some (rec_stop_model api s)) i
          (led0_heartbeat s) = Some s'"
    using assms(2) by (simp add: rec_control_tick_def)
next
  fix x assume "ctl_inv x" "recActive x = 0" "Some (rec_start_model api x) = Some s'"
  then show "ctl_inv s'" using start_model_inv by blast
next
  fix x assume "ctl_inv x" "recActive x \<noteq> 0" "Some (rec_stop_model api x) = Some s'"
  then show "ctl_inv s'" using stop_model_inv by blast
qed

lemma run_inv:
  assumes "\<And>s i s'. P s \<Longrightarrow> step s i = Some s' \<Longrightarrow> P s'"
  shows "P s \<Longrightarrow> ctl_run step ins s = Some s' \<Longrightarrow> P s'"
proof (induction ins arbitrary: s)
  case Nil then show ?case by simp
next
  case (Cons i ins) then show ?case using assms by (auto split: option.splits)
qed

lemma boot_inv: "ctl_inv (rec_init src l api (rec_ctl_boot t))"
  by (simp add: ctl_inv_def rec_init_def rec_ctl_boot_def n_opens_def n_closes_def split: prod.split)

lemma rec_control_inv: "rec_control api t ins = Some s \<Longrightarrow> ctl_inv s"
  unfolding rec_control_def
  by (rule run_inv[of ctl_inv "rec_control_tick api", OF tick_inv boot_inv])

lemma button_step_total:
  "(\<And>s. start s \<noteq> None) \<Longrightarrow> (\<And>s. stop s \<noteq> None) \<Longrightarrow> button_step start stop i s \<noteq> None"
  by (simp add: button_step_def Let_def)

lemma button_step_pres:
  assumes "\<And>s b. P s \<Longrightarrow> P (s\<lparr>btn_prev := b\<rparr>)"
    and "\<And>s s'. P s \<Longrightarrow> recActive s = 0 \<Longrightarrow> start s = Some s' \<Longrightarrow> P s'"
    and "\<And>s s'. P s \<Longrightarrow> recActive s \<noteq> 0 \<Longrightarrow> stop s = Some s' \<Longrightarrow> P s'"
    and "P s" and "button_step start stop i s = Some s'"
  shows "P s'"
proof (cases "(ucast (vioGetSignal vioBUTTON0 i) :: u8) = btn_prev s")
  case True
  with assms(4,5) show ?thesis by (simp add: button_step_def)
next
  case False
  let ?s1 = "s\<lparr>btn_prev := ucast (vioGetSignal vioBUTTON0 i)\<rparr>"
  have p: "P ?s1" using assms(1,4) .
  have "button_step start stop i s =
        (if ucast (ucast (vioGetSignal vioBUTTON0 i) :: u8) = vioBUTTON0
         then (if recActive s = 0 then start ?s1 else stop ?s1) else Some ?s1)"
    using False by (simp add: button_step_def Let_def)
  with assms(5) p assms(2) [OF p] assms(3) [OF p] show ?thesis
    by (simp split: if_splits)
qed

lemma tick_total: "rec_control_tick api s i \<noteq> None"
  unfolding rec_control_tick_def by (rule button_step_total) simp_all

lemma rec_control_total: "\<exists>s. rec_control api t ins = Some s"
proof -
  have "\<exists>s'. ctl_run (rec_control_tick api) ins s = Some s'" for s
  proof (induction ins arbitrary: s)
    case Nil then show ?case by simp
  next
    case (Cons i ins)
    then show ?case using tick_total[of api s i] by (auto split: option.split)
  qed
  then show ?thesis by (simp add: rec_control_def)
qed

lemma heartbeat_step:
  "unat (led0_cnt s) \<le> 10 \<Longrightarrow>
   unat (led0_cnt (led0_heartbeat s)) = Suc (unat (led0_cnt s)) mod 11 \<and>
   led0_val (led0_heartbeat s) = (if unat (led0_cnt s) = 10 then led0_val s XOR 1 else led0_val s)"
  by (auto simp: led0_heartbeat_def Let_def word_le_nat_alt unat_word_ariths)


lemma button_step_frame:
  assumes "\<And>s s'. start s = Some s' \<Longrightarrow> f s' = f s"
    and "\<And>s s'. stop s = Some s' \<Longrightarrow> f s' = f s"
    and "\<And>s b. f (s\<lparr>btn_prev := b\<rparr>) = f s"
    and "button_step start stop i s = Some s'"
  shows "f s' = f s"
  using assms(4) assms(1)[of "s\<lparr>btn_prev := ucast (vioGetSignal vioBUTTON0 i)\<rparr>" s']
    assms(2)[of "s\<lparr>btn_prev := ucast (vioGetSignal vioBUTTON0 i)\<rparr>" s'] assms(3)
  by (auto simp: button_step_def Let_def split: if_splits)

lemma tick_heartbeat:
  assumes "rec_control_tick api s i = Some s'"
  shows "led0_cnt s' = led0_cnt (led0_heartbeat s) \<and> led0_val s' = led0_val (led0_heartbeat s)"
proof -
  have "(\<lambda>s. (led0_cnt s, led0_val s)) s' = (\<lambda>s. (led0_cnt s, led0_val s)) (led0_heartbeat s)"
    by (rule button_step_frame[OF _ _ _ assms[unfolded rec_control_tick_def]]) (auto simp: ctl_unfold)
  then show ?thesis by simp
qed

lemma xor_1_twice [simp]: "(x XOR 1) XOR 1 = (x :: u8)"
  by (simp add: xor.assoc)

lemma run_heartbeat:
  "unat (led0_cnt s) \<le> 10 \<Longrightarrow> ctl_run (rec_control_tick api) ins s = Some s' \<Longrightarrow>
   unat (led0_cnt s') = (unat (led0_cnt s) + length ins) mod 11 \<and>
   led0_val s' = (if even ((unat (led0_cnt s) + length ins) div 11) then led0_val s else led0_val s XOR 1)"
proof (induction ins arbitrary: s)
  case Nil
  then show ?case by simp
next
  case (Cons i ins)
  from Cons.prems(2) obtain s1 where t: "rec_control_tick api s i = Some s1"
    and r: "ctl_run (rec_control_tick api) ins s1 = Some s'"
    by (auto split: option.splits)
  have h: "unat (led0_cnt s1) = Suc (unat (led0_cnt s)) mod 11"
    "led0_val s1 = (if unat (led0_cnt s) = 10 then led0_val s XOR 1 else led0_val s)"
    using heartbeat_step[OF Cons.prems(1)] tick_heartbeat[OF t] by simp_all
  then have "unat (led0_cnt s1) \<le> 10" by simp
  note IH = Cons.IH[OF this r]
  show ?case
  proof (cases "unat (led0_cnt s) = 10")
    case True
    have "(11 + length ins) div 11 = Suc (length ins div 11)" by simp
    with True IH h show ?thesis by simp
  next
    case False
    with Cons.prems(1) have "unat (led0_cnt s) < 10" by simp
    with IH h show ?thesis by simp
  qed
qed


lemma rec_init_heartbeat [simp]:
  "led0_cnt (rec_init src l api s) = led0_cnt s" "led0_val (rec_init src l api s) = led0_val s"
  "calls (rec_init src l api s) = calls s" "recActive (rec_init src l api s) = recActive s"
  by (simp_all add: rec_init_def split: prod.split)

subsection \<open>Properties\<close>

text \<open>
  C2. Session balance of \<open>rec_control\<close>: after any number of loop iterations
  the thread is either idle, with as many \<open>sdsRecClose\<close> calls as
  \<open>sdsRecOpen\<close> calls made and LED1 off, or recording, with exactly the two
  sessions of the current recording open and LED1 on.
\<close>

theorem rec_control_balanced:
  assumes "rec_control api t ins = Some s"
  shows "(recActive s = 0 \<and> n_opens (calls s) = n_closes (calls s) \<and> led1 s = vioLEDoff) \<or>
         (recActive s = 1 \<and> n_opens (calls s) = n_closes (calls s) + 2 \<and> led1 s = vioLEDon)"
  using rec_control_inv [OF assms] by (auto simp: ctl_inv_def)

theorem rec_control_balanced_witness:
  "rec_control \<lparr>api_init = (\<lambda>t. (0, t)), api_open = (\<lambda>_ _ _ t. (Some t, Suc t)),
                api_close = (\<lambda>_ t. (0, t))\<rparr> (0 :: nat) [1, 0, 1, 0]
     = Some (the (rec_control \<lparr>api_init = (\<lambda>t. (0, t)), api_open = (\<lambda>_ _ _ t. (Some t, Suc t)),
                api_close = (\<lambda>_ t. (0, t))\<rparr> (0 :: nat) [1, 0, 1, 0])) \<and>
   n_opens (calls (the (rec_control \<lparr>api_init = (\<lambda>t. (0, t)), api_open = (\<lambda>_ _ _ t. (Some t, Suc t)),
                api_close = (\<lambda>_ t. (0, t))\<rparr> (0 :: nat) [1, 0, 1, 0]))) = 2"
proof -
  let ?api = "\<lparr>api_init = (\<lambda>t. (0, t)), api_open = (\<lambda>_ _ _ t. (Some t, Suc t)),
                api_close = (\<lambda>_ t. (0 :: int, t))\<rparr> :: nat sds_rec_api"
  let ?s = "the (rec_control ?api 0 [1, 0, 1, 0])"
  have r: "rec_control ?api 0 [1, 0, 1, 0] = Some ?s"
    by (simp add: rec_control_def rec_control_tick_def button_step_def led0_heartbeat_def
        ctl_unfold rec_init_def rec_ctl_boot_def vioGetSignal_def)
  have "recActive ?s = 0"
    by (simp add: rec_control_def rec_control_tick_def button_step_def led0_heartbeat_def
        ctl_unfold rec_init_def rec_ctl_boot_def vioGetSignal_def)
  with rec_control_balanced [OF r] have "n_opens (calls ?s) = n_closes (calls ?s)" by simp
  moreover have "n_closes (calls ?s) = 2"
    by (simp add: rec_control_def rec_control_tick_def button_step_def led0_heartbeat_def
        ctl_unfold rec_init_def rec_ctl_boot_def vioGetSignal_def)
  ultimately show ?thesis using r by simp
qed

text \<open>
  C5. Edge detection: for any recorder, a press, a release and a press on
  three consecutive iterations start one recording (\<open>recActive\<close> set, then
  both sessions opened) and stop it (\<open>recActive\<close> cleared, then both
  sessions closed), in that order; a button held over three iterations starts
  exactly one recording.
\<close>

theorem rec_control_button_edges:
  "(\<exists>s'. rec_control api t [1, 0, 1] = Some s' \<and> recActive s' = 0 \<and>
     calls s' = [SetActive 1, CallOpen ''Model_Input'', CallOpen ''Model_Output'',
                 SetActive 0, CallClose (recId_in s'), CallClose (recId_out s')]) \<and>
   (\<exists>s'. rec_control api t [1, 1, 1] = Some s' \<and> recActive s' = 1 \<and>
     calls s' = [SetActive 1, CallOpen ''Model_Input'', CallOpen ''Model_Output''])"
  by (simp add: rec_control_def rec_control_tick_def button_step_def led0_heartbeat_def
        ctl_unfold rec_init_def rec_ctl_boot_def vioGetSignal_def split: prod.split)

text \<open>
  C17. Heartbeat: \<open>rec_control\<close> never blocks, and after \<open>n\<close> loop
  iterations the LED0 counter is \<open>n mod 11\<close> and LED0 has been toggled
  \<open>n div 11\<close> times: the post-increment test \<open>led0_cnt++ >= 10U\<close> toggles
  every 11th iteration (1.1 s at 100 ms per iteration), not every 10th.
\<close>

theorem rec_control_heartbeat:
  "\<exists>s. rec_control api t ins = Some s \<and> unat (led0_cnt s) = length ins mod 11 \<and>
       led0_val s = (if even (length ins div 11) then 0 else 1)"
proof -
  obtain s where r: "rec_control api t ins = Some s" using rec_control_total [of api t ins] by blast
  let ?s0 = "rec_init ''recorder_sds.c'' 92 api (rec_ctl_boot t)"
  have "unat (led0_cnt ?s0) \<le> 10" by (simp add: rec_ctl_boot_def)
  from run_heartbeat [OF this r [unfolded rec_control_def]] r show ?thesis
    by (simp add: rec_ctl_boot_def)
qed

end
