(* ===== verification/RecManagement.thy ===== *)
theory RecManagement
  imports RecControl
begin

text \<open>
  The recording management thread of \<open>src/Hardware/TestData/rec_management.c\<close>
  (\<open>threadRecManagement\<close>).  Its loop body is that of \<open>rec_control\<close> with
  other stream names and sizes, a different order in the start branch
  (\<open>recActive\<close> is set after both sessions are opened, then \<open>recDone\<close> is
  cleared), and a stop branch that polls the \<open>recDone\<close> flag, set by the
  producer thread, before it closes the sessions.  The values the poll reads
  are an input of the step: \<open>obs k\<close> is \<open>recDone\<close> as read after the
  \<open>k\<close>-th \<open>osDelay(10U)\<close> (from 0).  The poll is a loop that need not
  end, so it is a \<open>partial_function (option)\<close>.
\<close>

subsection \<open>Configuration\<close>

definition REC_BUF_SIZE_DATA_IN :: u32 where "REC_BUF_SIZE_DATA_IN = 8192"
definition REC_BUF_SIZE_DATA_OUT :: u32 where "REC_BUF_SIZE_DATA_OUT = 1536"
definition REC_IO_THRESHOLD_DATA_IN :: u32 where "REC_IO_THRESHOLD_DATA_IN = 7400"
definition REC_IO_THRESHOLD_DATA_OUT :: u32 where "REC_IO_THRESHOLD_DATA_OUT = 1400"

subsection \<open>The thread\<close>

text \<open>
  \<open>do { osDelay(10U); } while (recDone == 0U);\<close>: the result is the number
  of delays performed.
\<close>

partial_function (option) rec_done_wait :: "(nat \<Rightarrow> u8) \<Rightarrow> nat \<Rightarrow> nat option" where
  "rec_done_wait obs k = (if obs k = 0 then rec_done_wait obs (Suc k) else Some (Suc k))"

definition rec_start_mgmt :: "'t sds_rec_api \<Rightarrow> 't rec_ctl \<Rightarrow> 't rec_ctl" where
  "rec_start_mgmt api s =
     (let (rin, s1) = call_open api ''rec_management.c'' 117 ''DataInput''
                        REC_BUF_SIZE_DATA_IN REC_IO_THRESHOLD_DATA_IN s;
          (rout, s2) = call_open api ''rec_management.c'' 124 ''DataOutput''
                        REC_BUF_SIZE_DATA_OUT REC_IO_THRESHOLD_DATA_OUT (s1\<lparr>recId_in := rin\<rparr>);
          s3 = s2\<lparr>recId_out := rout, led1 := vioLEDon\<rparr>
      in (set_active 1 s3)\<lparr>recDone := 0\<rparr>)"

definition rec_stop_mgmt :: "'t sds_rec_api \<Rightarrow> (nat \<Rightarrow> u8) \<Rightarrow> 't rec_ctl \<Rightarrow> 't rec_ctl option" where
  "rec_stop_mgmt api obs s =
     (let s1 = set_active 0 s in
      case rec_done_wait obs 0 of
        None \<Rightarrow> None
      | Some n \<Rightarrow>
          (let s2 = s1\<lparr>recDone := obs (n - 1), calls := calls s1 @ [PollDone n]\<rparr>;
               s3 = call_close api ''rec_management.c'' 141 (recId_in s2) s2;
               s4 = call_close api ''rec_management.c'' 145 (recId_out s3) s3
           in Some (s4\<lparr>led1 := vioLEDoff\<rparr>)))"

definition threadRecManagement_tick ::
  "'t sds_rec_api \<Rightarrow> 't rec_ctl \<Rightarrow> u32 \<times> (nat \<Rightarrow> u8) \<Rightarrow> 't rec_ctl option" where
  "threadRecManagement_tick api s inp =
     (case inp of (inputs, obs) \<Rightarrow>
        button_step (\<lambda>s. Some (rec_start_mgmt api s)) (rec_stop_mgmt api obs) inputs
          (led0_heartbeat s))"

definition threadRecManagement ::
  "'t sds_rec_api \<Rightarrow> 't \<Rightarrow> (u32 \<times> (nat \<Rightarrow> u8)) list \<Rightarrow> 't rec_ctl option" where
  "threadRecManagement api t ins =
     ctl_run (threadRecManagement_tick api) ins (rec_init ''rec_management.c'' 95 api (rec_ctl_boot t))"

subsection \<open>Lemmas\<close>

lemma rec_done_wait_Some:
  assumes "rec_done_wait obs k = Some n"
  shows "k < n \<and> obs (n - 1) \<noteq> 0 \<and> (\<forall>j. k \<le> j \<and> j < n - 1 \<longrightarrow> obs j = 0)"
proof (rule rec_done_wait.raw_induct
    [where P = "\<lambda>obs k n. k < n \<and> obs (n - 1) \<noteq> 0 \<and> (\<forall>j. k \<le> j \<and> j < n - 1 \<longrightarrow> obs j = 0)",
     OF _ assms])
  fix f obs k n
  assume IH: "\<And>obs k n. f obs k = Some n \<Longrightarrow>
                k < n \<and> obs (n - 1) \<noteq> 0 \<and> (\<forall>j. k \<le> j \<and> j < n - 1 \<longrightarrow> obs j = 0)"
    and eq: "(if obs k = 0 then f obs (Suc k) else Some (Suc k)) = Some n"
  show "k < n \<and> obs (n - 1) \<noteq> 0 \<and> (\<forall>j. k \<le> j \<and> j < n - 1 \<longrightarrow> obs j = 0)"
  proof (cases "obs k = 0")
    case True
    with eq have "f obs (Suc k) = Some n" by simp
    note I = IH [OF this]
    have "\<forall>j. k \<le> j \<and> j < n - 1 \<longrightarrow> obs j = 0"
    proof (intro allI impI)
      fix j assume j: "k \<le> j \<and> j < n - 1"
      show "obs j = 0"
      proof (cases "j = k")
        case True
        with \<open>obs k = 0\<close> show ?thesis by simp
      next
        case False
        with j I show ?thesis by auto
      qed
    qed
    with I show ?thesis by auto
  next
    case False
    with eq show ?thesis by auto
  qed
qed

lemma rec_done_wait_returns:
  "obs j \<noteq> 0 \<Longrightarrow> k \<le> j \<Longrightarrow> \<exists>n. rec_done_wait obs k = Some n"
proof (induction "j - k" arbitrary: k)
  case 0
  then have "k = j" by simp
  with "0.prems" show ?case by (simp add: rec_done_wait.simps)
next
  case (Suc d)
  show ?case
  proof (cases "obs k = 0")
    case True
    with Suc.prems have "k \<noteq> j" by auto
    with Suc.hyps(2) Suc.prems have "\<exists>n. rec_done_wait obs (Suc k) = Some n"
      by (intro Suc.hyps(1)) auto
    with True show ?thesis by (simp add: rec_done_wait.simps)
  next
    case False
    then show ?thesis by (simp add: rec_done_wait.simps)
  qed
qed

lemma ctl_inv_recDone [simp]: "ctl_inv (s\<lparr>recDone := x\<rparr>) = ctl_inv s"
  by (simp add: ctl_inv_def)

lemma start_mgmt_inv: "ctl_inv s \<Longrightarrow> recActive s = 0 \<Longrightarrow> ctl_inv (rec_start_mgmt api s)"
  by (simp add: ctl_inv_def rec_start_mgmt_def ctl_unfold)

lemma stop_mgmt_inv:
  "ctl_inv s \<Longrightarrow> recActive s \<noteq> 0 \<Longrightarrow> rec_stop_mgmt api obs s = Some s' \<Longrightarrow> ctl_inv s'"
  by (auto simp: ctl_inv_def rec_stop_mgmt_def ctl_unfold split: option.splits)

lemma mgmt_tick_inv:
  assumes "ctl_inv s" and "threadRecManagement_tick api s (i, obs) = Some s'"
  shows "ctl_inv s'"
proof (rule button_step_inv)
  show "ctl_inv (led0_heartbeat s)" using assms(1) by (rule ctl_inv_heartbeat)
  show "button_step (\<lambda>s. Some (rec_start_mgmt api s)) (rec_stop_mgmt api obs) i
          (led0_heartbeat s) = Some s'"
    using assms(2) by (simp add: threadRecManagement_tick_def)
next
  fix x assume "ctl_inv x" "recActive x = 0" "Some (rec_start_mgmt api x) = Some s'"
  then show "ctl_inv s'" using start_mgmt_inv by blast
next
  fix x assume "ctl_inv x" "recActive x \<noteq> 0" "rec_stop_mgmt api obs x = Some s'"
  then show "ctl_inv s'" using stop_mgmt_inv by blast
qed

lemma threadRecManagement_inv: "threadRecManagement api t ins = Some s \<Longrightarrow> ctl_inv s"
  unfolding threadRecManagement_def
  by (rule run_inv [of ctl_inv "threadRecManagement_tick api", OF _ boot_inv])
     (metis mgmt_tick_inv surj_pair)

lemma mgmt_tick_total:
  assumes "obs j \<noteq> 0"
  shows "threadRecManagement_tick api s (i, obs) \<noteq> None"
proof -
  obtain n where "rec_done_wait obs 0 = Some n" using rec_done_wait_returns [of obs j 0] assms by auto
  then have "rec_stop_mgmt api obs x \<noteq> None" for x by (simp add: rec_stop_mgmt_def Let_def)
  then have "button_step (\<lambda>s. Some (rec_start_mgmt api s)) (rec_stop_mgmt api obs) i
               (led0_heartbeat s) \<noteq> None"
    by (rule button_step_total [rotated]) simp
  then show ?thesis by (simp add: threadRecManagement_tick_def)
qed

lemma mgmt_run_total:
  "\<forall>x \<in> set ins. \<exists>j. snd x j \<noteq> 0 \<Longrightarrow> \<exists>s'. ctl_run (threadRecManagement_tick api) ins s = Some s'"
proof (induction ins arbitrary: s)
  case Nil then show ?case by simp
next
  case (Cons x ins)
  obtain i obs where x: "x = (i, obs)" by fastforce
  then obtain j where "obs j \<noteq> 0" using Cons.prems by auto
  then obtain s1 where "threadRecManagement_tick api s x = Some s1"
    using mgmt_tick_total x by blast
  with Cons show ?case by simp
qed

lemmas mgmt_unfold = threadRecManagement_def threadRecManagement_tick_def button_step_def
  led0_heartbeat_def rec_start_mgmt_def rec_stop_mgmt_def ctl_unfold rec_init_def rec_ctl_boot_def
  vioGetSignal_def

subsection \<open>Properties\<close>

text \<open>
  C1. Drain before close: an iteration of \<open>threadRecManagement\<close> that issues
  \<open>sdsRecClose\<close> first clears \<open>recActive\<close>, then polls until it reads a
  non-zero \<open>recDone\<close> (every earlier read was zero), and only then closes the
  input and the output session, in that order.
\<close>

theorem threadRecManagement_close_after_done:
  assumes "threadRecManagement_tick api s (inputs, obs) = Some s'"
    and "n_closes (calls s') \<noteq> n_closes (calls s)"
  shows "\<exists>n. calls s' = calls s @ [SetActive 0, PollDone n, CallClose (recId_in s),
                                     CallClose (recId_out s)] \<and>
             0 < n \<and> obs (n - 1) \<noteq> 0 \<and> (\<forall>j < n - 1. obs j = 0)"
  using assms
  by (auto simp: threadRecManagement_tick_def button_step_def Let_def rec_stop_mgmt_def
        rec_start_mgmt_def ctl_unfold split: if_splits option.splits dest!: rec_done_wait_Some)

theorem threadRecManagement_close_after_done_witness:
  "threadRecManagement_tick (\<lparr>api_init = (\<lambda>t. (0, t)), api_open = (\<lambda>_ _ _ t. (Some t, Suc t)),
       api_close = (\<lambda>_ t. (0, t))\<rparr> :: nat sds_rec_api)
     ((rec_ctl_boot 0)\<lparr>recActive := 1, recId_in := Some 0, recId_out := Some 1\<rparr>)
     (1, \<lambda>j. if j < 2 then 0 else 1)
   = Some ((rec_ctl_boot 0)\<lparr>btn_prev := 1, led0_cnt := 1, recActive := 0, recDone := 1,
       recId_in := Some 0, recId_out := Some 1,
       calls := [SetActive 0, PollDone 3, CallClose (Some 0), CallClose (Some 1)]\<rparr>) \<and>
   calls ((rec_ctl_boot (0::nat))\<lparr>btn_prev := 1, led0_cnt := 1, recActive := 0, recDone := 1,
       recId_in := Some 0, recId_out := Some 1,
       calls := [SetActive 0, PollDone 3, CallClose (Some 0), CallClose (Some 1)]\<rparr>)
     = [SetActive 0, PollDone 3, CallClose (Some 0), CallClose (Some 1)]"
proof -
  let ?api = "\<lparr>api_init = (\<lambda>t. (0 :: int, t)), api_open = (\<lambda>_ _ _ t. (Some t, Suc t)),
       api_close = (\<lambda>_ t. (0 :: int, t))\<rparr> :: nat sds_rec_api"
  let ?s = "(rec_ctl_boot (0::nat))\<lparr>recActive := 1, recId_in := Some 0, recId_out := Some 1\<rparr>"
  let ?obs = "\<lambda>j::nat. if j < 2 then (0::u8) else 1"
  let ?s' = "(rec_ctl_boot (0::nat))\<lparr>btn_prev := 1, led0_cnt := 1, recActive := 0, recDone := 1,
       recId_in := Some 0, recId_out := Some 1,
       calls := [SetActive 0, PollDone 3, CallClose (Some 0), CallClose (Some 1)]\<rparr>"
  have w: "rec_done_wait ?obs 0 = Some 3" by (simp add: rec_done_wait.simps)
  have t: "threadRecManagement_tick ?api ?s (1, ?obs) = Some ?s'"
    by (simp add: threadRecManagement_tick_def button_step_def led0_heartbeat_def
        rec_stop_mgmt_def ctl_unfold rec_ctl_boot_def vioGetSignal_def w sds_error_init_def)
  have "n_closes (calls ?s') \<noteq> n_closes (calls ?s)" by (simp add: rec_ctl_boot_def)
  from threadRecManagement_close_after_done [OF t this] t show ?thesis by simp
qed

text \<open>
  C3. Session balance of \<open>threadRecManagement\<close>: after any run of loop
  iterations that returns, the thread is either idle, with as many closes as
  opens and LED1 off, or recording with the two sessions of the current
  recording open and LED1 on.
\<close>

theorem threadRecManagement_balanced:
  assumes "threadRecManagement api t ins = Some s"
  shows "(recActive s = 0 \<and> n_opens (calls s) = n_closes (calls s) \<and> led1 s = vioLEDoff) \<or>
         (recActive s = 1 \<and> n_opens (calls s) = n_closes (calls s) + 2 \<and> led1 s = vioLEDon)"
  using threadRecManagement_inv [OF assms] by (auto simp: ctl_inv_def)

theorem threadRecManagement_balanced_witness:
  "threadRecManagement (\<lparr>api_init = (\<lambda>t. (0, t)), api_open = (\<lambda>_ _ _ t. (Some t, Suc t)),
       api_close = (\<lambda>_ t. (0, t))\<rparr> :: nat sds_rec_api) 0 [(1, \<lambda>_. 0), (0, \<lambda>_. 0), (1, \<lambda>_. 1)]
     = Some (the (threadRecManagement (\<lparr>api_init = (\<lambda>t. (0, t)),
       api_open = (\<lambda>_ _ _ t. (Some t, Suc t)), api_close = (\<lambda>_ t. (0, t))\<rparr> :: nat sds_rec_api)
       0 [(1, \<lambda>_. 0), (0, \<lambda>_. 0), (1, \<lambda>_. 1)])) \<and>
   n_opens (calls (the (threadRecManagement (\<lparr>api_init = (\<lambda>t. (0, t)),
       api_open = (\<lambda>_ _ _ t. (Some t, Suc t)), api_close = (\<lambda>_ t. (0, t))\<rparr> :: nat sds_rec_api)
       0 [(1, \<lambda>_. 0), (0, \<lambda>_. 0), (1, \<lambda>_. 1)]))) = 2"
proof -
  let ?api = "\<lparr>api_init = (\<lambda>t. (0 :: int, t)), api_open = (\<lambda>_ _ _ t. (Some t, Suc t)),
       api_close = (\<lambda>_ t. (0 :: int, t))\<rparr> :: nat sds_rec_api"
  let ?ins = "[(1, \<lambda>_. 0), (0, \<lambda>_. 0), (1, \<lambda>_. 1)] :: (u32 \<times> (nat \<Rightarrow> u8)) list"
  let ?s = "the (threadRecManagement ?api 0 ?ins)"
  have w: "rec_done_wait (\<lambda>_. 1) 0 = Some 1" by (simp add: rec_done_wait.simps)
  have r: "threadRecManagement ?api 0 ?ins = Some ?s"
    by (simp add: mgmt_unfold w)
  have "recActive ?s = 0" "n_closes (calls ?s) = 2"
    by (simp_all add: mgmt_unfold w)
  with threadRecManagement_balanced [OF r] r show ?thesis by simp
qed

text \<open>
  C4. Termination of the drain wait: the \<open>recDone\<close> poll started at read
  \<open>k\<close> returns exactly when some later read is non-zero, and then after as
  many delays as it takes to reach the first such read; if \<open>recDone\<close> is
  never set it does not return.
\<close>

theorem rec_done_wait_exact:
  "rec_done_wait obs k =
     (if \<exists>j \<ge> k. obs j \<noteq> 0 then Some (Suc (LEAST j. k \<le> j \<and> obs j \<noteq> 0)) else None)"
proof (cases "\<exists>j \<ge> k. obs j \<noteq> 0")
  case True
  then obtain j where j: "k \<le> j" "obs j \<noteq> 0" by auto
  then obtain n where n: "rec_done_wait obs k = Some n" using rec_done_wait_returns by blast
  note P = rec_done_wait_Some [OF n]
  have "(LEAST j. k \<le> j \<and> obs j \<noteq> 0) = n - 1"
  proof (rule Least_equality)
    show "k \<le> n - 1 \<and> obs (n - 1) \<noteq> 0" using P by auto
    fix y assume "k \<le> y \<and> obs y \<noteq> 0"
    with P show "n - 1 \<le> y" by (meson not_le)
  qed
  with True n P show ?thesis by simp
next
  case False
  have "rec_done_wait obs k = None"
  proof (rule ccontr)
    assume "rec_done_wait obs k \<noteq> None"
    then obtain n where "rec_done_wait obs k = Some n" by auto
    from rec_done_wait_Some [OF this] False show False by (auto simp: le_less_Suc_eq)
  qed
  with False show ?thesis by simp
qed

theorem rec_done_wait_exact_witness:
  "(\<exists>j \<ge> 0. (\<lambda>j::nat. if j = 3 then 1 else (0::u8)) j \<noteq> 0) \<and>
   rec_done_wait (\<lambda>j. if j = 3 then 1 else 0) 0 = Some 4"
proof -
  have L: "(LEAST j. 0 \<le> j \<and> (if j = 3 then 1 else (0::u8)) \<noteq> 0) = (3::nat)"
    by (rule Least_equality) (auto split: if_splits)
  have E: "\<exists>j \<ge> 0. (\<lambda>j::nat. if j = 3 then 1 else (0::u8)) j \<noteq> 0" by (rule exI [of _ 3]) simp
  from E rec_done_wait_exact [of "\<lambda>j. if j = 3 then 1 else 0" 0] L show ?thesis by simp
qed

text \<open>
  C18. Stall: an iteration of \<open>threadRecManagement\<close> fails to return exactly
  when it sees a new press of the button while recording and \<open>recDone\<close> is
  never set; the LED0 heartbeat then stops with it.
\<close>

theorem threadRecManagement_tick_stalls:
  "threadRecManagement_tick api s (inputs, obs) = None \<longleftrightarrow>
     (let b = (ucast (vioGetSignal vioBUTTON0 inputs) :: u8) in
      b \<noteq> btn_prev s \<and> ucast b = vioBUTTON0 \<and> recActive s \<noteq> 0 \<and> (\<forall>j. obs j = 0))"
proof -
  have "rec_done_wait obs 0 = None \<longleftrightarrow> (\<forall>j. obs j = 0)"
  proof
    assume "rec_done_wait obs 0 = None"
    then show "\<forall>j. obs j = 0" using rec_done_wait_returns [of obs _ 0] by force
  next
    assume z: "\<forall>j. obs j = 0"
    show "rec_done_wait obs 0 = None"
    proof (rule ccontr)
      assume "rec_done_wait obs 0 \<noteq> None"
      then obtain n where "rec_done_wait obs 0 = Some n" by auto
      from rec_done_wait_Some [OF this] z show False by simp
    qed
  qed
  then show ?thesis
    by (auto simp: threadRecManagement_tick_def button_step_def Let_def rec_stop_mgmt_def
        split: option.splits)
qed

text \<open>
  C19. Start order of \<open>threadRecManagement\<close>: a press, a release and a press
  open the input and the output session before setting \<open>recActive\<close>
  (the reverse of \<open>rec_control\<close>), and the stop clears \<open>recActive\<close>,
  waits for \<open>recDone\<close>, then closes both sessions.
\<close>

theorem threadRecManagement_button_edges:
  "\<exists>s'. threadRecManagement api t [(1, \<lambda>_. 1), (0, \<lambda>_. 1), (1, \<lambda>_. 1)] = Some s' \<and>
     recActive s' = 0 \<and>
     calls s' = [CallOpen ''DataInput'', CallOpen ''DataOutput'', SetActive 1,
                 SetActive 0, PollDone 1, CallClose (recId_in s'), CallClose (recId_out s')]"
proof -
  have w: "rec_done_wait (\<lambda>_. 1) 0 = Some 1" by (simp add: rec_done_wait.simps)
  show ?thesis by (simp add: mgmt_unfold w split: prod.split)
qed

end
