(* ===== verification/SdsRec.thy ===== *)
theory SdsRec
  imports RecControl
begin

text \<open>
  The SDS recorder that both recording threads call (\<open>sdsRecInit\<close>,
  \<open>sdsRecOpen\<close>, \<open>sdsRecWrite\<close>, \<open>sdsRecClose\<close> of \<open>sds_rec.h\<close>).  Its
  code is not part of the repository; this theory models it from the
  specification (section 4.2): each open stream owns a fixed-capacity
  circular byte buffer with a write index, a read index and a fill count;
  a write is accepted whole or rejected; a write that makes the fill cross
  the I/O threshold raises one flush request; the transport drains bytes
  from the read end.  The buffer is proved to implement a byte queue
  (\<open>cb_list\<close>), and the recorder instantiates the interface
  \<open>sds_rec_api\<close> of the controller threads.
\<close>

subsection \<open>Stream buffer\<close>

record sds_stream =
  st_name :: string
  st_size :: nat
  st_threshold :: nat
  st_mem :: "u8 list"
  st_head :: nat
  st_tail :: nat
  st_cnt :: nat
  st_flush_reqs :: nat
  st_sent :: "u8 list"

definition stream_new :: "string \<Rightarrow> nat \<Rightarrow> nat \<Rightarrow> sds_stream" where
  "stream_new nm sz thr =
     \<lparr>st_name = nm, st_size = sz, st_threshold = thr, st_mem = replicate sz 0,
      st_head = 0, st_tail = 0, st_cnt = 0, st_flush_reqs = 0, st_sent = []\<rparr>"

text \<open>One byte stored at the write index.\<close>

definition cb_put :: "sds_stream \<Rightarrow> u8 \<Rightarrow> sds_stream" where
  "cb_put st x =
     st\<lparr>st_mem := (st_mem st)[st_head st := x], st_head := Suc (st_head st) mod st_size st,
        st_cnt := Suc (st_cnt st)\<rparr>"

text \<open>
  A write of \<open>data\<close>: rejected (0 bytes written) when it does not fit in the
  free space; otherwise stored, and one flush request raised when the fill
  goes from below the threshold to at least the threshold.
\<close>

definition stream_write :: "u8 list \<Rightarrow> sds_stream \<Rightarrow> nat \<times> sds_stream" where
  "stream_write data st =
     (if st_size st - st_cnt st < length data then (0, st)
      else (let st' = fold (\<lambda>x s. cb_put s x) data st in
            (length data,
             if st_cnt st < st_threshold st \<and> st_threshold st \<le> st_cnt st'
             then st'\<lparr>st_flush_reqs := Suc (st_flush_reqs st)\<rparr> else st')))"

text \<open>The transport takes one byte from the read index.\<close>

definition cb_take :: "sds_stream \<Rightarrow> sds_stream" where
  "cb_take st =
     st\<lparr>st_sent := st_sent st @ [st_mem st ! st_tail st],
        st_tail := Suc (st_tail st) mod st_size st, st_cnt := st_cnt st - 1\<rparr>"

definition stream_drain :: "nat \<Rightarrow> sds_stream \<Rightarrow> sds_stream" where
  "stream_drain k st = (cb_take ^^ min k (st_cnt st)) st"

text \<open>A run of producer writes and transport drains; the result also collects the bytes of the accepted writes.\<close>

datatype stream_op = Write "u8 list" | Drain nat

fun stream_run :: "stream_op list \<Rightarrow> sds_stream \<Rightarrow> u8 list \<times> sds_stream" where
  "stream_run [] st = ([], st)"
| "stream_run (Write d # ops) st =
     (case stream_write d st of (n, st1) \<Rightarrow>
        (case stream_run ops st1 of (acc, st2) \<Rightarrow> ((if n = 0 then [] else d) @ acc, st2)))"
| "stream_run (Drain k # ops) st = stream_run ops (stream_drain k st)"

subsection \<open>Abstraction and invariant\<close>

definition cb_list :: "sds_stream \<Rightarrow> u8 list" where
  "cb_list st = map (\<lambda>i. st_mem st ! ((st_tail st + i) mod st_size st)) [0..<st_cnt st]"

definition stream_inv :: "sds_stream \<Rightarrow> bool" where
  "stream_inv st \<longleftrightarrow>
     0 < st_size st \<and> st_threshold st < st_size st \<and> length (st_mem st) = st_size st \<and>
     st_tail st < st_size st \<and> st_cnt st \<le> st_size st \<and>
     st_head st = (st_tail st + st_cnt st) mod st_size st"

subsection \<open>Abstract specification: a bounded byte queue\<close>

text \<open>
  What a stream promises: the bytes handed to the transport so far and the
  bytes still queued, in order.  A write is taken whole when it fits in the
  capacity and refused otherwise; a drain hands over the oldest bytes.
\<close>

definition stream_abs :: "sds_stream \<Rightarrow> u8 list \<times> u8 list" where
  "stream_abs st = (st_sent st, cb_list st)"

definition queue_write :: "nat \<Rightarrow> u8 list \<Rightarrow> u8 list \<times> u8 list \<Rightarrow> nat \<times> (u8 list \<times> u8 list)" where
  "queue_write cap data sq =
     (if cap - length (snd sq) < length data then (0, sq) else (length data, (fst sq, snd sq @ data)))"

definition queue_drain :: "nat \<Rightarrow> u8 list \<times> u8 list \<Rightarrow> u8 list \<times> u8 list" where
  "queue_drain k sq = (fst sq @ take k (snd sq), drop k (snd sq))"

subsection \<open>The recorder\<close>

text \<open>
  The recorder state: whether \<open>sdsRecInit\<close> has run, the open streams by
  handle, and the next fresh handle.  \<open>sdsRecOpen\<close> validates its arguments
  (the threshold below the buffer size, the name not already open) as the
  specification requires; \<open>sdsRecClose\<close> fails for \<open>NULL\<close> and for a
  stream that is not open.
\<close>

record sds_rec =
  rec_init_done :: bool
  rec_streams :: "rec_id \<Rightarrow> sds_stream option"
  rec_next :: nat

definition sds_rec_boot :: sds_rec where
  "sds_rec_boot = \<lparr>rec_init_done = False, rec_streams = Map.empty, rec_next = 0\<rparr>"

definition sdsRecInit :: "sds_rec \<Rightarrow> int \<times> sds_rec" where
  "sdsRecInit r = (SDS_REC_OK, r\<lparr>rec_init_done := True\<rparr>)"

definition name_open :: "string \<Rightarrow> sds_rec \<Rightarrow> bool" where
  "name_open nm r \<longleftrightarrow> (\<exists>i < rec_next r. map_option st_name (rec_streams r i) = Some nm)"

definition sdsRecOpen :: "string \<Rightarrow> u32 \<Rightarrow> u32 \<Rightarrow> sds_rec \<Rightarrow> rec_id option \<times> sds_rec" where
  "sdsRecOpen nm bsize thr r =
     (if \<not> rec_init_done r \<or> unat bsize \<le> unat thr \<or> name_open nm r then (None, r)
      else (Some (rec_next r),
            r\<lparr>rec_streams := (rec_streams r)(rec_next r \<mapsto> stream_new nm (unat bsize) (unat thr)),
              rec_next := Suc (rec_next r)\<rparr>))"

definition sdsRecClose :: "rec_id option \<Rightarrow> sds_rec \<Rightarrow> int \<times> sds_rec" where
  "sdsRecClose rid r =
     (case rid of
        None \<Rightarrow> (SDS_REC_ERROR, r)
      | Some i \<Rightarrow>
          (if rec_streams r i = None then (SDS_REC_ERROR, r)
           else (SDS_REC_OK, r\<lparr>rec_streams := (rec_streams r)(i := None)\<rparr>)))"

definition sdsRecWrite :: "rec_id option \<Rightarrow> u8 list \<Rightarrow> sds_rec \<Rightarrow> nat \<times> sds_rec" where
  "sdsRecWrite rid data r =
     (case rid of
        None \<Rightarrow> (0, r)
      | Some i \<Rightarrow>
          (case rec_streams r i of
             None \<Rightarrow> (0, r)
           | Some st \<Rightarrow>
               (case stream_write data st of
                  (n, st') \<Rightarrow> (n, r\<lparr>rec_streams := (rec_streams r)(i \<mapsto> st')\<rparr>))))"

definition sds_api :: "sds_rec sds_rec_api" where
  "sds_api = \<lparr>api_init = sdsRecInit, api_open = sdsRecOpen, api_close = sdsRecClose\<rparr>"

subsection \<open>Lemmas\<close>

lemma mod_add_distinct:
  assumes "i < j" "j < (n::nat)" shows "(a + i) mod n \<noteq> (a + j) mod n"
proof
  assume "(a + i) mod n = (a + j) mod n"
  then have "n dvd (a + j) - (a + i)"
    using mod_eq_dvd_iff_nat [of "a + i" "a + j" n] assms by simp
  then have "n dvd j - i" by simp
  moreover have "0 < j - i" "j - i < n" using assms by auto
  ultimately show False using nat_dvd_not_less by blast
qed

lemma cb_put_inv:
  "stream_inv st \<Longrightarrow> st_cnt st < st_size st \<Longrightarrow> stream_inv (cb_put st x)"
  by (auto simp: stream_inv_def cb_put_def mod_Suc_eq)

lemma cb_put_list:
  assumes "stream_inv st" "st_cnt st < st_size st"
  shows "cb_list (cb_put st x) = cb_list st @ [x]"
proof -
  let ?n = "st_size st" and ?t = "st_tail st" and ?c = "st_cnt st"
  have hd: "st_head st = (?t + ?c) mod ?n" "length (st_mem st) = ?n" "0 < ?n"
    using assms(1) by (auto simp: stream_inv_def)
  have "(st_mem st)[st_head st := x] ! ((?t + i) mod ?n) = st_mem st ! ((?t + i) mod ?n)"
    if "i < ?c" for i
  proof -
    have "(?t + i) mod ?n \<noteq> st_head st"
      using mod_add_distinct [of i ?c ?n ?t] that assms(2) hd(1) by simp
    then show ?thesis by simp
  qed
  then have "map (\<lambda>i. (st_mem st)[st_head st := x] ! ((?t + i) mod ?n)) [0..<?c] =
        map (\<lambda>i. st_mem st ! ((?t + i) mod ?n)) [0..<?c]"
    by simp
  moreover have "(st_mem st)[st_head st := x] ! ((?t + ?c) mod ?n) = x"
    using hd by simp
  ultimately show ?thesis by (simp add: cb_list_def cb_put_def)
qed

lemma cb_put_fields [simp]:
  "st_size (cb_put st x) = st_size st" "st_threshold (cb_put st x) = st_threshold st"
  "st_sent (cb_put st x) = st_sent st" "st_flush_reqs (cb_put st x) = st_flush_reqs st"
  "st_cnt (cb_put st x) = Suc (st_cnt st)" "st_name (cb_put st x) = st_name st"
  by (simp_all add: cb_put_def)

lemma fold_cb_put:
  "stream_inv st \<Longrightarrow> st_cnt st + length data \<le> st_size st \<Longrightarrow>
   stream_inv (fold (\<lambda>x s. cb_put s x) data st) \<and>
   cb_list (fold (\<lambda>x s. cb_put s x) data st) = cb_list st @ data \<and>
   st_cnt (fold (\<lambda>x s. cb_put s x) data st) = st_cnt st + length data \<and>
   st_sent (fold (\<lambda>x s. cb_put s x) data st) = st_sent st \<and>
   st_flush_reqs (fold (\<lambda>x s. cb_put s x) data st) = st_flush_reqs st \<and>
   st_threshold (fold (\<lambda>x s. cb_put s x) data st) = st_threshold st \<and>
   st_size (fold (\<lambda>x s. cb_put s x) data st) = st_size st"
proof (induction data arbitrary: st)
  case Nil then show ?case by simp
next
  case (Cons x xs)
  have "stream_inv (cb_put st x)" "cb_list (cb_put st x) = cb_list st @ [x]"
    using Cons.prems cb_put_inv cb_put_list by auto
  moreover have "st_cnt (cb_put st x) + length xs \<le> st_size (cb_put st x)"
    using Cons.prems by simp
  ultimately show ?case using Cons.IH [of "cb_put st x"] by simp
qed

lemma mod_Suc_shift:
  assumes "0 < c" shows "(Suc t mod n + (c - 1)) mod n = (t + c) mod (n::nat)"
proof -
  have "(Suc t mod n + (c - 1)) mod n = (Suc t + (c - 1)) mod n" by (rule mod_add_left_eq)
  also have "Suc t + (c - 1) = t + c" using assms by simp
  finally show ?thesis .
qed

lemma cb_take_step:
  assumes "stream_inv st" "0 < st_cnt st"
  shows "stream_inv (cb_take st) \<and> cb_list (cb_take st) = tl (cb_list st) \<and>
         st_sent (cb_take st) = st_sent st @ [hd (cb_list st)] \<and>
         st_cnt (cb_take st) = st_cnt st - 1"
proof -
  let ?n = "st_size st" and ?t = "st_tail st" and ?c = "st_cnt st"
  have i: "0 < ?n" "?t < ?n" "?c \<le> ?n" "st_head st = (?t + ?c) mod ?n"
    using assms(1) by (auto simp: stream_inv_def)
  have inv: "stream_inv (cb_take st)"
    using assms i mod_Suc_shift [of ?c ?t ?n] by (auto simp: stream_inv_def cb_take_def)
  have e: "(Suc ?t mod ?n + i) mod ?n = (?t + Suc i) mod ?n" for i
    by (simp add: mod_add_left_eq)
  have u: "[Suc 0..<?c] = map Suc [0..<?c - 1]"
    using assms(2) by (simp add: map_Suc_upt)
  have "tl (cb_list st) = map (\<lambda>i. st_mem st ! (Suc (?t + i) mod ?n)) [0..<?c - 1]"
    by (simp add: cb_list_def map_tl [symmetric] tl_upt u)
  moreover have "cb_list (cb_take st) = map (\<lambda>i. st_mem st ! (Suc (?t + i) mod ?n)) [0..<?c - 1]"
    by (simp add: cb_list_def cb_take_def e)
  ultimately have "cb_list (cb_take st) = tl (cb_list st)" by simp
  moreover have "hd (cb_list st) = st_mem st ! ?t"
    using assms(2) i by (simp add: cb_list_def hd_map upt_conv_Cons)
  ultimately show ?thesis using inv by (simp add: cb_take_def)
qed

lemma cb_take_iter:
  "stream_inv st \<Longrightarrow> k \<le> st_cnt st \<Longrightarrow>
   stream_inv ((cb_take ^^ k) st) \<and> cb_list ((cb_take ^^ k) st) = drop k (cb_list st) \<and>
   st_sent ((cb_take ^^ k) st) = st_sent st @ take k (cb_list st) \<and>
   st_cnt ((cb_take ^^ k) st) = st_cnt st - k"
proof (induction k)
  case 0 then show ?case by simp
next
  case (Suc k)
  then have IH: "stream_inv ((cb_take ^^ k) st)" "cb_list ((cb_take ^^ k) st) = drop k (cb_list st)"
    "st_sent ((cb_take ^^ k) st) = st_sent st @ take k (cb_list st)"
    "st_cnt ((cb_take ^^ k) st) = st_cnt st - k" by auto
  have len: "length (cb_list st) = st_cnt st" by (simp add: cb_list_def)
  have "0 < st_cnt ((cb_take ^^ k) st)" using IH(4) Suc.prems(2) by simp
  from cb_take_step [OF IH(1) this] IH Suc.prems(2) len show ?case
    by (auto simp: drop_Suc tl_drop take_Suc_conv_app_nth hd_drop_conv_nth)
qed

lemma stream_write_cases:
  assumes "stream_inv st" "stream_write data st = (n, st')"
  shows "stream_inv st' \<and> st_sent st' = st_sent st \<and> st_size st' = st_size st \<and>
         st_threshold st' = st_threshold st \<and>
         (if length data \<le> st_size st - st_cnt st
          then n = length data \<and> cb_list st' = cb_list st @ data \<and>
               st_cnt st' = st_cnt st + length data \<and>
               st_flush_reqs st' = st_flush_reqs st +
                 (if st_cnt st < st_threshold st \<and> st_threshold st \<le> st_cnt st + length data
                  then 1 else 0)
          else n = 0 \<and> st' = st)"
proof (cases "length data \<le> st_size st - st_cnt st")
  case True
  then have "st_cnt st + length data \<le> st_size st"
    using assms(1) unfolding stream_inv_def by linarith
  note F = fold_cb_put [OF assms(1) this]
  have "stream_inv (st'\<lparr>st_flush_reqs := x\<rparr>) = stream_inv st'" for x st'
    by (simp add: stream_inv_def)
  moreover have "cb_list (st'\<lparr>st_flush_reqs := x\<rparr>) = cb_list st'" for x st'
    by (simp add: cb_list_def)
  ultimately show ?thesis using assms(2) True F
    by (auto simp: stream_write_def Let_def split: if_splits)
next
  case False
  with assms show ?thesis by (auto simp: stream_write_def)
qed

lemma stream_drain_cases:
  "stream_inv st \<Longrightarrow>
   stream_inv (stream_drain k st) \<and>
   st_sent (stream_drain k st) @ cb_list (stream_drain k st) = st_sent st @ cb_list st \<and>
   st_size (stream_drain k st) = st_size st"
proof -
  assume i: "stream_inv st"
  have "min k (st_cnt st) \<le> st_cnt st" by simp
  note T = cb_take_iter [OF i this]
  have sz: "st_size ((cb_take ^^ j) st) = st_size st" for j
    by (induction j) (simp_all add: cb_take_def)
  from T sz show ?thesis by (simp add: stream_drain_def)
qed

lemma stream_run_inv:
  "stream_inv st \<Longrightarrow> stream_run ops st = (acc, st') \<Longrightarrow>
   stream_inv st' \<and> st_cnt st' \<le> st_size st' \<and> st_size st' = st_size st \<and>
   st_sent st' @ cb_list st' = st_sent st @ cb_list st @ acc"
proof (induction ops st arbitrary: acc st' rule: stream_run.induct)
  case (1 st)
  then show ?case by (simp add: stream_inv_def)
next
  case (2 d ops st)
  obtain n st1 where w: "stream_write d st = (n, st1)" by fastforce
  obtain acc1 st2 where r: "stream_run ops st1 = (acc1, st2)" by fastforce
  note W = stream_write_cases [OF "2.prems"(1) w]
  have IH: "stream_inv st2 \<and> st_cnt st2 \<le> st_size st2 \<and> st_size st2 = st_size st1 \<and>
            st_sent st2 @ cb_list st2 = st_sent st1 @ cb_list st1 @ acc1"
    using "2.IH" [OF w [symmetric] W [THEN conjunct1] r] .
  from "2.prems"(2) w r have "acc = (if n = 0 then [] else d) @ acc1" "st' = st2" by auto
  with IH W show ?case by (auto split: if_splits)
next
  case (3 k ops st)
  note D = stream_drain_cases [OF "3.prems"(1), of k]
  from "3.IH" [OF D [THEN conjunct1]] "3.prems"(2) D show ?case by simp
qed

lemma cb_list_length [simp]: "length (cb_list st) = st_cnt st"
  by (simp add: cb_list_def)

lemma stream_new_inv:
  "0 < sz \<Longrightarrow> thr < sz \<Longrightarrow> stream_inv (stream_new nm sz thr)"
  by (simp add: stream_inv_def stream_new_def)

lemma stream_new_fields [simp]:
  "cb_list (stream_new nm sz thr) = []" "st_sent (stream_new nm sz thr) = []"
  "st_size (stream_new nm sz thr) = sz" "st_threshold (stream_new nm sz thr) = thr"
  "st_cnt (stream_new nm sz thr) = 0" "st_flush_reqs (stream_new nm sz thr) = 0"
  "st_name (stream_new nm sz thr) = nm"
  by (simp_all add: cb_list_def stream_new_def)

lemma name_open_empty: "dom (rec_streams r) = {} \<Longrightarrow> \<not> name_open nm r"
  by (auto simp: name_open_def)

lemma map_clear2: "dom m = {i, j} \<Longrightarrow> m(i := None, j := None) = Map.empty"
  by (rule ext) (auto simp: dom_def)

lemma call_open_sds:
  "call_open sds_api f l nm b thr s = (r, s') \<Longrightarrow>
   sdsRecOpen nm b thr (sds s) = (r, sds s') \<and>
   sds_error s' = sds_assert (r \<noteq> None) f l (sds_error s) \<and>
   recActive s' = recActive s \<and> recId_in s' = recId_in s"
  by (auto simp: call_open_def sds_api_def split: prod.splits)

lemma sdsRecOpen_fresh:
  assumes "rec_init_done r" "unat thr < unat b" "\<not> name_open nm r"
  shows "sdsRecOpen nm b thr r = (Some (rec_next r),
           r\<lparr>rec_streams := (rec_streams r)(rec_next r \<mapsto> stream_new nm (unat b) (unat thr)),
             rec_next := Suc (rec_next r)\<rparr>)"
  using assms by (simp add: sdsRecOpen_def)

lemma name_open_single:
  "rec_streams r = [n \<mapsto> stream_new nm1 b t] \<Longrightarrow> nm1 \<noteq> nm2 \<Longrightarrow> \<not> name_open nm2 r"
  by (auto simp: name_open_def)

lemma call_close_ids [simp]:
  "recId_in (call_close api f l rid s) = recId_in s" "recId_out (call_close api f l rid s) = recId_out s"
  "recActive (call_close api f l rid s) = recActive s"
  by (simp_all add: call_close_def split: prod.split)

lemma call_close_sys:
  assumes "rec_streams (sds s) i \<noteq> None"
  shows "sds (call_close sds_api f l (Some i) s) = (sds s)\<lparr>rec_streams := (rec_streams (sds s))(i := None)\<rparr> \<and>
         sds_error (call_close sds_api f l (Some i) s) = sds_error s \<and>
         recActive (call_close sds_api f l (Some i) s) = recActive s \<and>
         recId_in (call_close sds_api f l (Some i) s) = recId_in s \<and>
         recId_out (call_close sds_api f l (Some i) s) = recId_out s"
  using assms by (auto simp: call_close_def sds_api_def sdsRecClose_def sds_assert_def)

subsection \<open>The stream buffer refines a bounded queue\<close>

text \<open>
  Refinement of a write: on a well-formed stream, \<open>stream_write\<close>
  keeps the buffer well formed and does to the abstract (sent, queued) pair
  exactly what \<open>queue_write\<close> does with the stream's capacity: the whole
  write is appended when it fits in the free space, else nothing changes and
  0 is returned.
\<close>

theorem stream_write_refines:
  assumes "stream_inv st" "stream_write data st = (n, st')"
  shows "stream_inv st' \<and> (n, stream_abs st') = queue_write (st_size st) data (stream_abs st)"
  using stream_write_cases [OF assms]
  by (auto simp: queue_write_def stream_abs_def split: if_splits)

text \<open>
  Refinement of a drain: draining \<open>k\<close> bytes from a well-formed
  stream keeps it well formed and hands the transport the \<open>k\<close> oldest
  queued bytes (all of them when fewer are queued), as \<open>queue_drain\<close>.
\<close>

theorem stream_drain_refines:
  assumes "stream_inv st"
  shows "stream_inv (stream_drain k st) \<and>
         stream_abs (stream_drain k st) = queue_drain k (stream_abs st)"
proof -
  have "min k (st_cnt st) \<le> st_cnt st" by simp
  note T = cb_take_iter [OF assms this]
  have "take (min k (st_cnt st)) (cb_list st) = take k (cb_list st)"
       "drop (min k (st_cnt st)) (cb_list st) = drop k (cb_list st)"
    by (simp_all add: min_def)
  with T show ?thesis by (simp add: stream_drain_def stream_abs_def queue_drain_def)
qed

text \<open>
  No data loss and no overflow: on a stream opened with a positive
  size above its threshold, after any sequence of writes and drains the fill
  never exceeds the capacity, and the bytes handed to the transport followed
  by the bytes still queued are exactly the bytes of the accepted writes, in
  order.
\<close>

theorem stream_run_no_loss:
  assumes "0 < sz" "thr < sz" "stream_run ops (stream_new nm sz thr) = (acc, st')"
  shows "st_cnt st' \<le> sz \<and> st_sent st' @ cb_list st' = acc"
  using stream_run_inv [OF stream_new_inv [OF assms(1,2)] assms(3)] by simp

text \<open>
  Threshold flush: a write raises exactly one flush request when it
  takes the fill from below the I/O threshold to at least the threshold, and
  none otherwise (in particular none for a refused write).
\<close>

theorem stream_write_flush_once:
  assumes "stream_inv st" "stream_write data st = (n, st')"
  shows "st_flush_reqs st' = st_flush_reqs st +
           (if st_cnt st < st_threshold st \<and> st_threshold st \<le> st_cnt st' then 1 else 0)"
  using stream_write_cases [OF assms] by (auto split: if_splits)

text \<open>
  \<open>sdsRecOpen\<close> validates its arguments: it refuses (returns
  \<open>NULL\<close> and leaves the recorder unchanged) exactly when the recorder is not
  initialised, the buffer size does not exceed the threshold, or a stream of
  that name is already open; otherwise it returns a fresh handle, never
  handed out before, bound to a new empty, well-formed stream.
\<close>

theorem sdsRecOpen_validates:
  assumes "sdsRecOpen nm bsize thr r = (rid, r')"
  shows "(rid = None \<longleftrightarrow> \<not> rec_init_done r \<or> unat bsize \<le> unat thr \<or> name_open nm r) \<and>
         (rid = None \<longrightarrow> r' = r) \<and>
         (\<forall>i. rid = Some i \<longrightarrow> i = rec_next r \<and> rec_next r' = Suc i \<and>
            rec_streams r' = (rec_streams r)(i \<mapsto> stream_new nm (unat bsize) (unat thr)) \<and>
            stream_inv (stream_new nm (unat bsize) (unat thr)) \<and>
            stream_abs (stream_new nm (unat bsize) (unat thr)) = ([], []))"
proof (cases "\<not> rec_init_done r \<or> unat bsize \<le> unat thr \<or> name_open nm r")
  case True
  with assms show ?thesis by (auto simp: sdsRecOpen_def)
next
  case False
  then have "0 < unat bsize" "unat thr < unat bsize" by auto
  with False assms show ?thesis by (auto simp: sdsRecOpen_def stream_new_inv stream_abs_def)
qed

subsection \<open>Witnesses\<close>

text \<open>A four-byte stream with threshold 2, written with three bytes and drained by two.\<close>

theorem stream_write_refines_witness:
  "stream_inv (stream_new ''s'' 4 2) \<and>
   stream_write [1, 2, 3] (stream_new ''s'' 4 2) =
     (fst (stream_write [1, 2, 3] (stream_new ''s'' 4 2)),
      snd (stream_write [1, 2, 3] (stream_new ''s'' 4 2))) \<and>
   stream_abs (snd (stream_write [1, 2, 3] (stream_new ''s'' 4 2))) = ([], [1, 2, 3])"
proof -
  have i: "stream_inv (stream_new ''s'' 4 2)" by (rule stream_new_inv) simp_all
  note R = stream_write_refines [OF i, of "[1, 2, 3]" "fst (stream_write [1, 2, 3] (stream_new ''s'' 4 2))"
    "snd (stream_write [1, 2, 3] (stream_new ''s'' 4 2))"]
  from i R show ?thesis by (simp add: queue_write_def stream_abs_def prod_eq_iff)
qed

theorem stream_drain_refines_witness:
  "stream_inv (snd (stream_write [1, 2, 3] (stream_new ''s'' 4 2))) \<and>
   stream_abs (stream_drain 2 (snd (stream_write [1, 2, 3] (stream_new ''s'' 4 2)))) = ([1, 2], [3])"
proof -
  let ?w = "stream_write [1, 2, 3] (stream_new ''s'' 4 2)"
  have i: "stream_inv (stream_new ''s'' 4 2)" by (rule stream_new_inv) simp_all
  have "stream_write [1, 2, 3] (stream_new ''s'' 4 2) = (fst ?w, snd ?w)" by simp
  note W = stream_write_cases [OF i this]
  then have w: "stream_inv (snd ?w)" "stream_abs (snd ?w) = ([], [1, 2, 3])"
    by (simp_all add: stream_abs_def)
  from w stream_drain_refines [OF w(1), of 2] show ?thesis by (simp add: queue_drain_def)
qed

theorem stream_run_no_loss_witness:
  "st_cnt (snd (stream_run [Write [1, 2, 3], Drain 2, Write [4, 5, 6, 7]] (stream_new ''s'' 4 2))) \<le> 4 \<and>
   st_sent (snd (stream_run [Write [1, 2, 3], Drain 2, Write [4, 5, 6, 7]] (stream_new ''s'' 4 2))) @
   cb_list (snd (stream_run [Write [1, 2, 3], Drain 2, Write [4, 5, 6, 7]] (stream_new ''s'' 4 2))) =
   [1, 2, 3]"
proof -
  let ?r = "stream_run [Write [1, 2, 3], Drain 2, Write [4, 5, 6, 7]] (stream_new ''s'' 4 2)"
  have "fst ?r = [1, 2, 3]"
    by (simp add: stream_write_def cb_put_def stream_new_def stream_drain_def cb_take_def)
  moreover have "?r = (fst ?r, snd ?r)" by simp
  ultimately show ?thesis
    using stream_run_no_loss [of 4 2 "[Write [1, 2, 3], Drain 2, Write [4, 5, 6, 7]]" "''s''" "fst ?r" "snd ?r"]
    by simp
qed

theorem stream_write_flush_once_witness:
  "stream_inv (stream_new ''s'' 4 2) \<and>
   st_flush_reqs (snd (stream_write [1, 2, 3] (stream_new ''s'' 4 2))) = 1"
proof -
  let ?w = "stream_write [1, 2, 3] (stream_new ''s'' 4 2)"
  have i: "stream_inv (stream_new ''s'' 4 2)" by (rule stream_new_inv) simp_all
  have p: "?w = (fst ?w, snd ?w)" by simp
  have c: "st_cnt (snd ?w) = 3"
    using stream_write_cases [OF i p] by simp
  from i c stream_write_flush_once [OF i p] show ?thesis by simp
qed

theorem sdsRecOpen_validates_witness:
  "sdsRecOpen ''DataInput'' 8192 7400 (sds_rec_boot\<lparr>rec_init_done := True\<rparr>) =
     (fst (sdsRecOpen ''DataInput'' 8192 7400 (sds_rec_boot\<lparr>rec_init_done := True\<rparr>)),
      snd (sdsRecOpen ''DataInput'' 8192 7400 (sds_rec_boot\<lparr>rec_init_done := True\<rparr>))) \<and>
   fst (sdsRecOpen ''DataInput'' 8192 7400 (sds_rec_boot\<lparr>rec_init_done := True\<rparr>)) = Some 0 \<and>
   fst (sdsRecOpen ''DataInput'' 7400 7400 (sds_rec_boot\<lparr>rec_init_done := True\<rparr>)) = None"
proof -
  let ?r = "sds_rec_boot\<lparr>rec_init_done := True\<rparr>"
  have n: "\<not> name_open nm ?r" for nm by (simp add: name_open_def sds_rec_boot_def)
  have p: "sdsRecOpen nm b t ?r = (fst (sdsRecOpen nm b t ?r), snd (sdsRecOpen nm b t ?r))" for nm b t
    by simp
  note A = sdsRecOpen_validates [OF p [of "''DataInput''" 8192 7400]]
  note B = sdsRecOpen_validates [OF p [of "''DataInput''" 7400 7400]]
  from A have "fst (sdsRecOpen ''DataInput'' 8192 7400 ?r) = Some (rec_next ?r)"
    using n by (cases "fst (sdsRecOpen ''DataInput'' 8192 7400 ?r)") auto
  with B show ?thesis by (simp add: sds_rec_boot_def prod_eq_iff)
qed

subsection \<open>The recorder at the controller's configuration and calls\<close>

lemma model_in_config:
  "unat REC_BUF_SIZE_MODEL_IN = 8192" "unat REC_IO_THRESHOLD_MODEL_IN = 7680"
  by (simp_all add: REC_BUF_SIZE_MODEL_IN_def REC_IO_THRESHOLD_MODEL_IN_def)

text \<open>
  C21.  The specification's flush scenario on the controller's
  \<open>Model_Input\<close> stream (\<open>REC_BUF_SIZE_MODEL_IN\<close> = 8192,
  \<open>REC_IO_THRESHOLD_MODEL_IN\<close> = 7680): writing 7679 bytes raises no flush
  request, one more byte raises exactly one, and all 7680 bytes are queued.
\<close>

theorem model_input_flush_scenario:
  "stream_write (replicate 7679 0)
     (stream_new ''Model_Input'' (unat REC_BUF_SIZE_MODEL_IN) (unat REC_IO_THRESHOLD_MODEL_IN)) = (n1, st1) \<Longrightarrow>
   stream_write [0] st1 = (n2, st2) \<Longrightarrow>
   n1 = 7679 \<and> st_flush_reqs st1 = 0 \<and> n2 = 1 \<and> st_flush_reqs st2 = 1 \<and>
   cb_list st2 = replicate 7680 0"
proof -
  let ?st0 = "stream_new ''Model_Input'' (unat REC_BUF_SIZE_MODEL_IN) (unat REC_IO_THRESHOLD_MODEL_IN)"
  assume w1: "stream_write (replicate 7679 0) ?st0 = (n1, st1)" and w2: "stream_write [0] st1 = (n2, st2)"
  have i: "stream_inv ?st0" by (rule stream_new_inv) (simp_all add: model_in_config)
  note W1 = stream_write_cases [OF i w1]
  then have a: "stream_inv st1" "n1 = 7679" "st_flush_reqs st1 = 0" "st_cnt st1 = 7679"
    "cb_list st1 = replicate 7679 0" "st_size st1 = 8192" "st_threshold st1 = 7680"
    by (simp_all add: model_in_config)
  note W2 = stream_write_cases [OF a(1) w2]
  have r: "replicate 7679 (0::u8) @ [0] = replicate 7680 0"
  proof -
    have "replicate 7679 (0::u8) @ [0] = replicate (Suc 7679) 0"
      by (simp only: replicate_append_same replicate_Suc)
    then show ?thesis by simp
  qed
  from W2 a r show ?thesis by simp
qed
theorem model_input_flush_scenario_witness:
  "st_flush_reqs (snd (stream_write (replicate 7679 0)
      (stream_new ''Model_Input'' (unat REC_BUF_SIZE_MODEL_IN) (unat REC_IO_THRESHOLD_MODEL_IN)))) = 0 \<and>
   st_flush_reqs (snd (stream_write [0] (snd (stream_write (replicate 7679 0)
      (stream_new ''Model_Input'' (unat REC_BUF_SIZE_MODEL_IN) (unat REC_IO_THRESHOLD_MODEL_IN)))))) = 1"
proof -
  let ?w1 = "stream_write (replicate 7679 0)
      (stream_new ''Model_Input'' (unat REC_BUF_SIZE_MODEL_IN) (unat REC_IO_THRESHOLD_MODEL_IN))"
  let ?w2 = "stream_write [0] (snd ?w1)"
  have p1: "?w1 = (fst ?w1, snd ?w1)" and p2: "?w2 = (fst ?w2, snd ?w2)" by simp_all
  from model_input_flush_scenario [OF p1 p2] show ?thesis by simp
qed

end
