(* ===== verification/SocketBuild.thy ===== *)
theory SocketBuild
  imports RecManagement
begin

text \<open>
  The build with \<open>RTE_SDS_IO_SOCKET\<close> defined: before \<open>sdsRecInit\<close>, both
  threads call \<open>socket_startup()\<close> and assert that it returned 0
  (\<open>recorder_sds.c\<close> lines 84-88, \<open>rec_management.c\<close> lines 87-91).  The
  start-up itself is external I/O; its status is an input.  A failed
  start-up is the error the record reports for the rest of the run.
\<close>

subsection \<open>The socket start-up step and the two threads in this build\<close>

text \<open>\<open>status = socket_startup(); sds_assert(status == 0);\<close>\<close>

definition socket_init :: "string \<Rightarrow> u32 \<Rightarrow> int \<Rightarrow> 't rec_ctl \<Rightarrow> 't rec_ctl" where
  "socket_init src l status s = s\<lparr>sds_error := sds_assert (status = 0) src l (sds_error s)\<rparr>"

definition rec_control_sock :: "'t sds_rec_api \<Rightarrow> int \<Rightarrow> 't \<Rightarrow> u32 list \<Rightarrow> 't rec_ctl option" where
  "rec_control_sock api sock t ins =
     ctl_run (rec_control_tick api) ins
       (rec_init ''recorder_sds.c'' 92 api (socket_init ''recorder_sds.c'' 87 sock (rec_ctl_boot t)))"

definition threadRecManagement_sock ::
  "'t sds_rec_api \<Rightarrow> int \<Rightarrow> 't \<Rightarrow> (u32 \<times> (nat \<Rightarrow> u8)) list \<Rightarrow> 't rec_ctl option" where
  "threadRecManagement_sock api sock t ins =
     ctl_run (threadRecManagement_tick api) ins
       (rec_init ''rec_management.c'' 95 api (socket_init ''rec_management.c'' 90 sock (rec_ctl_boot t)))"

subsection \<open>Lemmas: a latched record is never changed by the threads\<close>

lemma ctl_run_total:
  "(\<And>s i. step s i \<noteq> None) \<Longrightarrow> \<exists>s'. ctl_run step ins s = Some s'"
proof (induction ins arbitrary: s)
  case Nil then show ?case by simp
next
  case (Cons i ins)
  then obtain s1 where "step s i = Some s1" by fastforce
  with Cons show ?case by simp
qed

lemma call_open_latched:
  "occurred (sds_error s) \<noteq> 0 \<Longrightarrow> sds_error (snd (call_open api f l nm b thr s)) = sds_error s"
  by (simp add: call_open_def split: prod.split)

lemma call_close_latched:
  "occurred (sds_error s) \<noteq> 0 \<Longrightarrow> sds_error (call_close api f l rid s) = sds_error s"
  by (simp add: call_close_def split: prod.split)

lemma start_model_latched:
  "occurred (sds_error s) \<noteq> 0 \<Longrightarrow> sds_error (rec_start_model api s) = sds_error s"
  by (simp add: rec_start_model_def set_active_def call_open_def Let_def split: prod.split)

lemma stop_model_latched:
  "occurred (sds_error s) \<noteq> 0 \<Longrightarrow> sds_error (rec_stop_model api s) = sds_error s"
  by (simp add: rec_stop_model_def set_active_def call_close_latched Let_def)

lemma start_mgmt_latched:
  "occurred (sds_error s) \<noteq> 0 \<Longrightarrow> sds_error (rec_start_mgmt api s) = sds_error s"
  by (simp add: rec_start_mgmt_def set_active_def call_open_def Let_def split: prod.split)

lemma stop_mgmt_latched:
  "occurred (sds_error s) \<noteq> 0 \<Longrightarrow> rec_stop_mgmt api obs s = Some s' \<Longrightarrow> sds_error s' = sds_error s"
  by (auto simp: rec_stop_mgmt_def set_active_def call_close_latched Let_def split: option.splits)

lemma tick_latched:
  assumes "occurred E \<noteq> 0" "sds_error s = E" "rec_control_tick api s i = Some s'"
  shows "sds_error s' = E"
  apply (rule button_step_pres [where P = "\<lambda>x. sds_error x = E",
           OF _ _ _ _ assms(3) [unfolded rec_control_tick_def]])
     apply simp
    apply (use assms(1) start_model_latched in force)
   apply (use assms(1) stop_model_latched in force)
  using assms(2) by simp

lemma mgmt_tick_latched:
  assumes "occurred E \<noteq> 0" "sds_error s = E" "threadRecManagement_tick api s (i, obs) = Some s'"
  shows "sds_error s' = E"
  apply (rule button_step_pres [where P = "\<lambda>x. sds_error x = E",
           OF _ _ _ _ assms(3) [unfolded threadRecManagement_tick_def prod.case]])
     apply simp
    apply (use assms(1) start_mgmt_latched in force)
   apply (use assms(1) stop_mgmt_latched in force)
  using assms(2) by simp

lemma socket_init_ok [simp]: "socket_init f l 0 s = s"
  by (simp add: socket_init_def)

lemma socket_fail_boot:
  "sock \<noteq> 0 \<Longrightarrow>
   sds_error (rec_init f' l' api (socket_init f l sock (rec_ctl_boot t))) =
   sds_error_init\<lparr>occurred := 1, err_file := Some f, err_line := l\<rparr>"
  by (simp add: rec_init_def socket_init_def rec_ctl_boot_def sds_error_init_def sds_assert_def
      split: prod.split)

subsection \<open>Properties\<close>

text \<open>
  C28.  In the socket build of \<open>rec_control\<close>, a failed
  \<open>socket_startup()\<close> (non-zero status) is the error the record reports
  after any number of loop iterations: \<open>recorder_sds.c\<close> line 87, whatever
  the recorder and the button do afterwards.
\<close>

theorem rec_control_socket_failure:
  assumes "sock \<noteq> 0" "rec_control_sock api sock t ins = Some s"
  shows "err_loc (sds_error s) = Some (''recorder_sds.c'', 87)"
proof -
  let ?E = "sds_error_init\<lparr>occurred := 1, err_file := Some ''recorder_sds.c'', err_line := 87\<rparr>"
  have step: "sds_error x = ?E \<Longrightarrow> rec_control_tick api x i = Some x' \<Longrightarrow> sds_error x' = ?E"
    for x i x'
    using tick_latched [of ?E x api i x'] by simp
  have "sds_error s = ?E"
  proof (rule run_inv [where P = "\<lambda>x. sds_error x = ?E" and step = "rec_control_tick api"])
    show "sds_error x' = ?E" if "sds_error x = ?E" "rec_control_tick api x i = Some x'"
      for x i x' using step that .
    show "sds_error (rec_init ''recorder_sds.c'' 92 api
            (socket_init ''recorder_sds.c'' 87 sock (rec_ctl_boot t))) = ?E"
      by (rule socket_fail_boot [OF assms(1)])
    show "ctl_run (rec_control_tick api) ins
            (rec_init ''recorder_sds.c'' 92 api
              (socket_init ''recorder_sds.c'' 87 sock (rec_ctl_boot t))) = Some s"
      using assms(2) by (simp add: rec_control_sock_def)
  qed
  then show ?thesis by (simp add: err_loc_fired)
qed

text \<open>
  C29.  The same for \<open>threadRecManagement\<close>: on every run of the socket
  build that returns, a failed start-up is reported at
  \<open>rec_management.c\<close> line 90.
\<close>

theorem threadRecManagement_socket_failure:
  assumes "sock \<noteq> 0" "threadRecManagement_sock api sock t ins = Some s"
  shows "err_loc (sds_error s) = Some (''rec_management.c'', 90)"
proof -
  let ?E = "sds_error_init\<lparr>occurred := 1, err_file := Some ''rec_management.c'', err_line := 90\<rparr>"
  have step: "sds_error x = ?E \<Longrightarrow> threadRecManagement_tick api x inp = Some x' \<Longrightarrow> sds_error x' = ?E"
    for x inp x'
    using mgmt_tick_latched [of ?E x api "fst inp" "snd inp" x'] by simp
  have "sds_error s = ?E"
  proof (rule run_inv [where P = "\<lambda>x. sds_error x = ?E" and step = "threadRecManagement_tick api"])
    show "sds_error x' = ?E" if "sds_error x = ?E" "threadRecManagement_tick api x inp = Some x'"
      for x inp x' using step that .
    show "sds_error (rec_init ''rec_management.c'' 95 api
            (socket_init ''rec_management.c'' 90 sock (rec_ctl_boot t))) = ?E"
      by (rule socket_fail_boot [OF assms(1)])
    show "ctl_run (threadRecManagement_tick api) ins
            (rec_init ''rec_management.c'' 95 api
              (socket_init ''rec_management.c'' 90 sock (rec_ctl_boot t))) = Some s"
      using assms(2) by (simp add: threadRecManagement_sock_def)
  qed
  then show ?thesis by (simp add: err_loc_fired)
qed

subsection \<open>Witnesses\<close>

theorem rec_control_socket_failure_witness:
  "(1::int) \<noteq> 0 \<and>
   rec_control_sock \<lparr>api_init = (\<lambda>t. (0, t)), api_open = (\<lambda>_ _ _ t. (Some t, Suc t)),
       api_close = (\<lambda>_ t. (0, t))\<rparr> 1 (0::nat) [1, 0, 1] =
     Some (the (rec_control_sock \<lparr>api_init = (\<lambda>t. (0, t)), api_open = (\<lambda>_ _ _ t. (Some t, Suc t)),
       api_close = (\<lambda>_ t. (0, t))\<rparr> 1 (0::nat) [1, 0, 1])) \<and>
   err_loc (sds_error (the (rec_control_sock \<lparr>api_init = (\<lambda>t. (0, t)), api_open = (\<lambda>_ _ _ t. (Some t, Suc t)),
       api_close = (\<lambda>_ t. (0, t))\<rparr> 1 (0::nat) [1, 0, 1]))) = Some (''recorder_sds.c'', 87)"
proof -
  let ?api = "\<lparr>api_init = (\<lambda>t. (0 :: int, t)), api_open = (\<lambda>_ _ _ t. (Some t, Suc t)),
       api_close = (\<lambda>_ t. (0 :: int, t))\<rparr> :: nat sds_rec_api"
  obtain s where r: "rec_control_sock ?api 1 0 [1, 0, 1] = Some s"
    unfolding rec_control_sock_def using ctl_run_total [of "rec_control_tick ?api", OF tick_total] by blast
  from rec_control_socket_failure [OF _ r] r show ?thesis by simp
qed

theorem threadRecManagement_socket_failure_witness:
  "(1::int) \<noteq> 0 \<and>
   threadRecManagement_sock \<lparr>api_init = (\<lambda>t. (0, t)), api_open = (\<lambda>_ _ _ t. (Some t, Suc t)),
       api_close = (\<lambda>_ t. (0, t))\<rparr> 1 (0::nat) [(1, \<lambda>_. 1), (0, \<lambda>_. 1), (1, \<lambda>_. 1)] =
     Some (the (threadRecManagement_sock \<lparr>api_init = (\<lambda>t. (0, t)), api_open = (\<lambda>_ _ _ t. (Some t, Suc t)),
       api_close = (\<lambda>_ t. (0, t))\<rparr> 1 (0::nat) [(1, \<lambda>_. 1), (0, \<lambda>_. 1), (1, \<lambda>_. 1)])) \<and>
   err_loc (sds_error (the (threadRecManagement_sock \<lparr>api_init = (\<lambda>t. (0, t)),
       api_open = (\<lambda>_ _ _ t. (Some t, Suc t)), api_close = (\<lambda>_ t. (0, t))\<rparr> 1 (0::nat)
       [(1, \<lambda>_. 1), (0, \<lambda>_. 1), (1, \<lambda>_. 1)]))) = Some (''rec_management.c'', 90)"
proof -
  let ?api = "\<lparr>api_init = (\<lambda>t. (0 :: int, t)), api_open = (\<lambda>_ _ _ t. (Some t, Suc t)),
       api_close = (\<lambda>_ t. (0 :: int, t))\<rparr> :: nat sds_rec_api"
  let ?ins = "[(1, \<lambda>_. 1), (0, \<lambda>_. 1), (1, \<lambda>_. 1)] :: (u32 \<times> (nat \<Rightarrow> u8)) list"
  have "\<forall>x \<in> set ?ins. \<exists>j. snd x j \<noteq> 0" by simp
  then obtain s where r: "threadRecManagement_sock ?api 1 0 ?ins = Some s"
    unfolding threadRecManagement_sock_def using mgmt_run_total by blast
  from threadRecManagement_socket_failure [OF _ r] r show ?thesis by simp
qed

end
