(* ===== verification/CaptureSystem.thy ===== *)
theory CaptureSystem
  imports SdsRec RecManagement
begin

text \<open>
  The recording controller running concurrently with the producer that feeds
  its input stream.  The start and stop branches of both threads are split
  into their C statements (each a guarded action on the shared globals; the
  \<open>recDone\<close> poll is the one guarded statement), and proved to compute the
  branch models of \<open>RecControl\<close>/\<open>RecManagement\<close>.  The producer and the
  drain-complete signal are not in the repository and are modelled from the
  specification (sections 3 and 5): the producer reads \<open>recActive\<close> and, when
  it is set, writes a sample to the input stream in a later step; the
  drain-complete flag \<open>recDone\<close> is raised only while recording is inactive and
  no producer write is in flight.  \<open>cap_step\<close> interleaves the three.
\<close>

subsection \<open>The branches as sequences of statements\<close>

type_synonym 't micro = "('t rec_ctl \<Rightarrow> bool) \<times> ('t rec_ctl \<Rightarrow> 't rec_ctl)"

definition always :: "'t rec_ctl \<Rightarrow> bool" where
  "always s = True"

definition open_in :: "'t sds_rec_api \<Rightarrow> string \<Rightarrow> u32 \<Rightarrow> string \<Rightarrow> u32 \<Rightarrow> u32 \<Rightarrow> 't rec_ctl \<Rightarrow> 't rec_ctl" where
  "open_in api src l nm bsize thr s =
     (case call_open api src l nm bsize thr s of (rid, s1) \<Rightarrow> s1\<lparr>recId_in := rid\<rparr>)"

definition open_out :: "'t sds_rec_api \<Rightarrow> string \<Rightarrow> u32 \<Rightarrow> string \<Rightarrow> u32 \<Rightarrow> u32 \<Rightarrow> 't rec_ctl \<Rightarrow> 't rec_ctl" where
  "open_out api src l nm bsize thr s =
     (case call_open api src l nm bsize thr s of (rid, s1) \<Rightarrow> s1\<lparr>recId_out := rid\<rparr>)"

definition close_in :: "'t sds_rec_api \<Rightarrow> string \<Rightarrow> u32 \<Rightarrow> 't rec_ctl \<Rightarrow> 't rec_ctl" where
  "close_in api src l s = call_close api src l (recId_in s) s"

definition close_out :: "'t sds_rec_api \<Rightarrow> string \<Rightarrow> u32 \<Rightarrow> 't rec_ctl \<Rightarrow> 't rec_ctl" where
  "close_out api src l s = call_close api src l (recId_out s) s"

definition set_led1 :: "u32 \<Rightarrow> 't rec_ctl \<Rightarrow> 't rec_ctl" where
  "set_led1 v s = s\<lparr>led1 := v\<rparr>"

definition clear_done :: "'t rec_ctl \<Rightarrow> 't rec_ctl" where
  "clear_done s = s\<lparr>recDone := 0\<rparr>"

definition done_set :: "'t rec_ctl \<Rightarrow> bool" where
  "done_set s \<longleftrightarrow> recDone s \<noteq> 0"

text \<open>\<open>rec_control\<close> (\<open>recorder_sds.c\<close>): \<open>recActive = 1U\<close> comes first, before the opens.\<close>

definition model_start_steps :: "'t sds_rec_api \<Rightarrow> 't micro list" where
  "model_start_steps api =
     [(always, set_active 1),
      (always, open_in api ''recorder_sds.c'' 116 ''Model_Input'' REC_BUF_SIZE_MODEL_IN REC_IO_THRESHOLD_MODEL_IN),
      (always, open_out api ''recorder_sds.c'' 123 ''Model_Output'' REC_BUF_SIZE_MODEL_OUT REC_IO_THRESHOLD_MODEL_OUT),
      (always, set_led1 vioLEDon)]"

definition model_stop_steps :: "'t sds_rec_api \<Rightarrow> 't micro list" where
  "model_stop_steps api =
     [(always, set_active 0),
      (always, close_in api ''recorder_sds.c'' 132),
      (always, close_out api ''recorder_sds.c'' 136),
      (always, set_led1 vioLEDoff)]"

text \<open>
  \<open>threadRecManagement\<close> (\<open>rec_management.c\<close>): the opens come first, then
  \<open>recActive = 1U; recDone = 0U;\<close>; the stop clears \<open>recActive\<close> and polls
  \<open>recDone\<close> before closing.  The poll is the statement guarded by
  \<open>recDone \<noteq> 0\<close>: it can only complete once the flag is set, and it
  changes no variable (its delays are not counted).
\<close>

definition mgmt_start_steps :: "'t sds_rec_api \<Rightarrow> 't micro list" where
  "mgmt_start_steps api =
     [(always, open_in api ''rec_management.c'' 117 ''DataInput'' REC_BUF_SIZE_DATA_IN REC_IO_THRESHOLD_DATA_IN),
      (always, open_out api ''rec_management.c'' 124 ''DataOutput'' REC_BUF_SIZE_DATA_OUT REC_IO_THRESHOLD_DATA_OUT),
      (always, set_led1 vioLEDon),
      (always, set_active 1),
      (always, clear_done)]"

definition mgmt_stop_steps :: "'t sds_rec_api \<Rightarrow> 't micro list" where
  "mgmt_stop_steps api =
     [(always, set_active 0),
      (done_set, id),
      (always, close_in api ''rec_management.c'' 141),
      (always, close_out api ''rec_management.c'' 145),
      (always, set_led1 vioLEDoff)]"

subsection \<open>The concurrent system\<close>

datatype ctl_pc = CIdle | CStart nat | CStop nat

datatype prod_pc = P_Idle | P_Write

record build =
  b_start :: "sds_rec micro list"
  b_stop :: "sds_rec micro list"

definition model_build :: build where
  "model_build = \<lparr>b_start = model_start_steps sds_api, b_stop = model_stop_steps sds_api\<rparr>"

definition mgmt_build :: build where
  "mgmt_build = \<lparr>b_start = mgmt_start_steps sds_api, b_stop = mgmt_stop_steps sds_api\<rparr>"

text \<open>
  The shared state: the controller's globals with the recorder, the two
  program counters, and a ghost count of producer writes that found the
  input handle \<open>NULL\<close> or its stream closed (data silently dropped).
\<close>

record cap_sys =
  cs :: "sds_rec rec_ctl"
  cpc :: ctl_pc
  ppc :: prod_pc
  lost :: nat

definition handle_open :: "sds_rec rec_ctl \<Rightarrow> bool" where
  "handle_open s \<longleftrightarrow> (case recId_in s of None \<Rightarrow> False | Some i \<Rightarrow> rec_streams (sds s) i \<noteq> None)"

definition prod_write :: "u8 list \<Rightarrow> cap_sys \<Rightarrow> cap_sys" where
  "prod_write d x =
     x\<lparr>cs := (cs x)\<lparr>sds := snd (sdsRecWrite (recId_in (cs x)) d (sds (cs x)))\<rparr>,
       ppc := P_Idle, lost := lost x + (if handle_open (cs x) then 0 else 1)\<rparr>"

definition next_pc :: "(nat \<Rightarrow> ctl_pc) \<Rightarrow> nat \<Rightarrow> nat \<Rightarrow> ctl_pc" where
  "next_pc c n len = (if Suc n < len then c (Suc n) else CIdle)"

text \<open>
  A button press starts or stops a session (edge detection and the
  heartbeat are verified in the controller theories and omitted here); a
  controller step executes the next statement of the branch when its guard
  holds; the producer checks \<open>recActive\<close>, then writes; the drain-complete
  signal is raised when recording is inactive and the producer is idle.
\<close>

inductive cap_step :: "build \<Rightarrow> cap_sys \<Rightarrow> cap_sys \<Rightarrow> bool" for b where
  press_start: "cpc x = CIdle \<Longrightarrow> recActive (cs x) = 0 \<Longrightarrow> cap_step b x (x\<lparr>cpc := CStart 0\<rparr>)"
| press_stop: "cpc x = CIdle \<Longrightarrow> recActive (cs x) \<noteq> 0 \<Longrightarrow> cap_step b x (x\<lparr>cpc := CStop 0\<rparr>)"
| start: "cpc x = CStart n \<Longrightarrow> n < length (b_start b) \<Longrightarrow> fst (b_start b ! n) (cs x) \<Longrightarrow>
          cap_step b x (x\<lparr>cs := snd (b_start b ! n) (cs x), cpc := next_pc CStart n (length (b_start b))\<rparr>)"
| stop: "cpc x = CStop n \<Longrightarrow> n < length (b_stop b) \<Longrightarrow> fst (b_stop b ! n) (cs x) \<Longrightarrow>
          cap_step b x (x\<lparr>cs := snd (b_stop b ! n) (cs x), cpc := next_pc CStop n (length (b_stop b))\<rparr>)"
| prod_check: "ppc x = P_Idle \<Longrightarrow> recActive (cs x) \<noteq> 0 \<Longrightarrow> cap_step b x (x\<lparr>ppc := P_Write\<rparr>)"
| prod_write: "ppc x = P_Write \<Longrightarrow> cap_step b x (prod_write d x)"
| drain_done: "ppc x = P_Idle \<Longrightarrow> recActive (cs x) = 0 \<Longrightarrow> cap_step b x (x\<lparr>cs := (cs x)\<lparr>recDone := 1\<rparr>\<rparr>)"

definition cap_init :: "string \<Rightarrow> u32 \<Rightarrow> cap_sys" where
  "cap_init src l =
     \<lparr>cs = rec_init src l sds_api (rec_ctl_boot sds_rec_boot), cpc = CIdle, ppc = P_Idle, lost = 0\<rparr>"

text \<open>An executable scheduler: the event names which process moves; a disabled move is skipped.\<close>

datatype cap_event = EPress | ECtl | ECheck | EWrite "u8 list" | EDone

fun cap_next :: "build \<Rightarrow> cap_event \<Rightarrow> cap_sys \<Rightarrow> cap_sys option" where
  "cap_next b EPress x =
     (if cpc x = CIdle then Some (x\<lparr>cpc := if recActive (cs x) = 0 then CStart 0 else CStop 0\<rparr>) else None)"
| "cap_next b ECtl x =
     (case cpc x of
        CIdle \<Rightarrow> None
      | CStart n \<Rightarrow> (if n < length (b_start b) \<and> fst (b_start b ! n) (cs x)
                    then Some (x\<lparr>cs := snd (b_start b ! n) (cs x), cpc := next_pc CStart n (length (b_start b))\<rparr>)
                    else None)
      | CStop n \<Rightarrow> (if n < length (b_stop b) \<and> fst (b_stop b ! n) (cs x)
                   then Some (x\<lparr>cs := snd (b_stop b ! n) (cs x), cpc := next_pc CStop n (length (b_stop b))\<rparr>)
                   else None))"
| "cap_next b ECheck x = (if ppc x = P_Idle \<and> recActive (cs x) \<noteq> 0 then Some (x\<lparr>ppc := P_Write\<rparr>) else None)"
| "cap_next b (EWrite d) x = (if ppc x = P_Write then Some (prod_write d x) else None)"
| "cap_next b EDone x =
     (if ppc x = P_Idle \<and> recActive (cs x) = 0 then Some (x\<lparr>cs := (cs x)\<lparr>recDone := 1\<rparr>\<rparr>) else None)"

fun cap_sched :: "build \<Rightarrow> cap_event list \<Rightarrow> cap_sys \<Rightarrow> cap_sys" where
  "cap_sched b [] x = x"
| "cap_sched b (ev # evs) x = (case cap_next b ev x of None \<Rightarrow> cap_sched b evs x | Some y \<Rightarrow> cap_sched b evs y)"

subsection \<open>The TestData invariant\<close>

text \<open>
  \<open>td_phase\<close> says, for each controller location, which streams are open, the
  value of \<open>recActive\<close> and \<open>recDone\<close>, and whether the producer may be
  between its check and its write.  \<open>td_inv\<close> adds that the recorder is
  initialised, no assertion has failed and no write was lost.
\<close>

definition two_open :: "sds_rec rec_ctl \<Rightarrow> bool" where
  "two_open s \<longleftrightarrow>
     (\<exists>i j. recId_in s = Some i \<and> recId_out s = Some j \<and> i \<noteq> j \<and> dom (rec_streams (sds s)) = {i, j})"

definition rec_ok :: "sds_rec rec_ctl \<Rightarrow> bool" where
  "rec_ok s \<longleftrightarrow> rec_init_done (sds s) \<and> occurred (sds_error s) = 0 \<and>
     (\<forall>i \<in> dom (rec_streams (sds s)). i < rec_next (sds s))"

fun td_phase :: "ctl_pc \<Rightarrow> prod_pc \<Rightarrow> sds_rec rec_ctl \<Rightarrow> bool" where
  "td_phase CIdle p s =
     (if recActive s = 0 then p = P_Idle \<and> dom (rec_streams (sds s)) = {}
      else recActive s = 1 \<and> recDone s = 0 \<and> two_open s)"
| "td_phase (CStart n) p s =
     (if n = 0 then recActive s = 0 \<and> p = P_Idle \<and> dom (rec_streams (sds s)) = {}
      else if n = 1 then recActive s = 0 \<and> p = P_Idle \<and>
        (\<exists>i. recId_in s = Some i \<and>
           rec_streams (sds s) = [i \<mapsto> stream_new ''DataInput'' (unat REC_BUF_SIZE_DATA_IN) (unat REC_IO_THRESHOLD_DATA_IN)])
      else if n < 4 then recActive s = 0 \<and> p = P_Idle \<and> two_open s
      else n = 4 \<and> recActive s = 1 \<and> two_open s)"
| "td_phase (CStop n) p s =
     (if n = 0 then recActive s = 1 \<and> recDone s = 0 \<and> two_open s
      else if n = 1 then recActive s = 0 \<and> two_open s \<and> (recDone s \<noteq> 0 \<longrightarrow> p = P_Idle)
      else if n = 2 then recActive s = 0 \<and> p = P_Idle \<and> recDone s \<noteq> 0 \<and> two_open s
      else if n = 3 then recActive s = 0 \<and> p = P_Idle \<and> recDone s \<noteq> 0 \<and>
        (\<exists>j. recId_out s = Some j \<and> dom (rec_streams (sds s)) = {j})
      else n = 4 \<and> recActive s = 0 \<and> p = P_Idle \<and> recDone s \<noteq> 0 \<and> dom (rec_streams (sds s)) = {})"

definition td_inv :: "cap_sys \<Rightarrow> bool" where
  "td_inv x \<longleftrightarrow> rec_ok (cs x) \<and> lost x = 0 \<and> td_phase (cpc x) (ppc x) (cs x)"

text \<open>
  A TestData schedule that ends with the controller about to close the input
  stream; after its first nine events the producer is between its check and
  its write while the controller is stopping.
\<close>

definition td_evs :: "cap_event list" where
  "td_evs = [EPress, ECtl, ECtl, ECtl, ECtl, ECheck, ECtl, EPress, ECtl, EWrite [7], EDone, ECtl]"

subsection \<open>Lemmas\<close>

lemma cap_next_step: "cap_next b ev x = Some y \<Longrightarrow> cap_step b x y"
  by (cases ev) (auto simp: cap_step.intros split: if_splits ctl_pc.splits)

lemma cap_sched_reach: "(cap_step b)\<^sup>*\<^sup>* x (cap_sched b evs x)"
proof (induction evs arbitrary: x)
  case Nil then show ?case by simp
next
  case (Cons ev evs)
  show ?case
  proof (cases "cap_next b ev x")
    case None with Cons show ?thesis by simp
  next
    case (Some y)
    then show ?thesis
      using converse_rtranclp_into_rtranclp [OF cap_next_step Cons.IH] by simp
  qed
qed
lemma call_open_fresh:
  assumes "rec_ok s" "unat thr < unat b" "\<not> name_open nm (sds s)"
  shows "call_open sds_api f l nm b thr s =
    (Some (rec_next (sds s)),
     s\<lparr>sds := (sds s)\<lparr>rec_streams := (rec_streams (sds s))(rec_next (sds s) \<mapsto> stream_new nm (unat b) (unat thr)),
                    rec_next := Suc (rec_next (sds s))\<rparr>,
       calls := calls s @ [CallOpen nm]\<rparr>)"
  using assms by (simp add: call_open_def sds_api_def sdsRecOpen_def rec_ok_def)

lemma data_thresholds:
  "unat REC_IO_THRESHOLD_DATA_IN < unat REC_BUF_SIZE_DATA_IN"
  "unat REC_IO_THRESHOLD_DATA_OUT < unat REC_BUF_SIZE_DATA_OUT"
  by (simp_all add: REC_IO_THRESHOLD_DATA_IN_def REC_BUF_SIZE_DATA_IN_def
      REC_IO_THRESHOLD_DATA_OUT_def REC_BUF_SIZE_DATA_OUT_def)

lemma two_open_handle: "two_open s \<Longrightarrow> handle_open s"
  by (clarsimp simp: two_open_def handle_open_def) (metis domD insertI1)

lemma sdsRecWrite_frame:
  "dom (rec_streams (snd (sdsRecWrite rid d r))) = dom (rec_streams r)"
  "rec_next (snd (sdsRecWrite rid d r)) = rec_next r"
  "rec_init_done (snd (sdsRecWrite rid d r)) = rec_init_done r"
  by (auto simp: sdsRecWrite_def split: option.split prod.split)

lemma td_start_step:
  assumes "rec_ok s" "td_phase (CStart n) p s" "n < 5"
  defines "s' \<equiv> snd (mgmt_start_steps sds_api ! n) s"
  shows "rec_ok s' \<and> td_phase (next_pc CStart n 5) p s'"
proof -
  consider "n = 0" | "n = 1" | "n = 2" | "n = 3" | "n = 4" using assms(3) by linarith
  then show ?thesis
  proof cases
    case 1
    then show ?thesis using assms(1,2) call_open_fresh [OF assms(1) data_thresholds(1)]
      by (simp add: s'_def mgmt_start_steps_def open_in_def next_pc_def name_open_empty rec_ok_def)
  next
    case 2
    then obtain i where i: "recId_in s = Some i" "recActive s = 0" "p = P_Idle"
      "rec_streams (sds s) = [i \<mapsto> stream_new ''DataInput'' (unat REC_BUF_SIZE_DATA_IN) (unat REC_IO_THRESHOLD_DATA_IN)]"
      using assms(2) by auto
    have "\<not> name_open ''DataOutput'' (sds s)" using name_open_single [OF i(4)] by simp
    from call_open_fresh [OF assms(1) data_thresholds(2) this] i assms(1) 2 show ?thesis
      by (auto simp: s'_def mgmt_start_steps_def open_out_def next_pc_def rec_ok_def two_open_def)
  next
    case 3
    then show ?thesis using assms(1,2)
      by (simp add: s'_def mgmt_start_steps_def set_led1_def next_pc_def rec_ok_def two_open_def)
  next
    case 4
    then show ?thesis using assms(1,2)
      by (simp add: s'_def mgmt_start_steps_def set_active_def next_pc_def rec_ok_def two_open_def)
  next
    case 5
    then show ?thesis using assms(1,2)
      by (simp add: s'_def mgmt_start_steps_def clear_done_def next_pc_def rec_ok_def two_open_def)
  qed
qed

lemma call_close_recDone [simp]: "recDone (call_close api f l rid s) = recDone s"
  by (simp add: call_close_def split: prod.split)

lemma call_close_open [simp]:
  assumes "i \<in> dom (rec_streams (sds s))"
  shows "sds (call_close sds_api f l (Some i) s) = (sds s)\<lparr>rec_streams := (rec_streams (sds s))(i := None)\<rparr>"
    "sds_error (call_close sds_api f l (Some i) s) = sds_error s"
  using assms by (auto simp: call_close_def sds_api_def sdsRecClose_def)

lemma td_stop_step:
  assumes "rec_ok s" "td_phase (CStop n) p s" "n < 5" "fst (mgmt_stop_steps sds_api ! n) s"
  defines "s' \<equiv> snd (mgmt_stop_steps sds_api ! n) s"
  shows "rec_ok s' \<and> td_phase (next_pc CStop n 5) p s'"
proof -
  consider "n = 0" | "n = 1" | "n = 2" | "n = 3" | "n = 4" using assms(3) by linarith
  then show ?thesis
  proof cases
    case 1
    then show ?thesis using assms(1,2)
      by (simp add: s'_def mgmt_stop_steps_def set_active_def next_pc_def rec_ok_def two_open_def)
  next
    case 2
    then show ?thesis using assms(1,2,4)
      by (simp add: s'_def mgmt_stop_steps_def done_set_def next_pc_def)
  next
    case 3
    then obtain i j where "recId_in s = Some i" "recId_out s = Some j" "i \<noteq> j"
      "dom (rec_streams (sds s)) = {i, j}" "recActive s = 0" "p = P_Idle" "recDone s \<noteq> 0"
      using assms(2) by (auto simp: two_open_def)
    with assms(1) 3 show ?thesis
      by (auto simp: s'_def mgmt_stop_steps_def close_in_def next_pc_def rec_ok_def)
  next
    case 4
    then obtain j where "recId_out s = Some j" "dom (rec_streams (sds s)) = {j}"
      "recActive s = 0" "p = P_Idle" "recDone s \<noteq> 0"
      using assms(2) by auto
    with assms(1) 4 show ?thesis
      by (auto simp: s'_def mgmt_stop_steps_def close_out_def next_pc_def rec_ok_def)
  next
    case 5
    then show ?thesis using assms(1,2)
      by (simp add: s'_def mgmt_stop_steps_def set_led1_def next_pc_def rec_ok_def)
  qed
qed

lemma mgmt_steps_len [simp]:
  "length (mgmt_start_steps api) = 5" "length (mgmt_stop_steps api) = 5"
  by (simp_all add: mgmt_start_steps_def mgmt_stop_steps_def)

lemma mgmt_build_len [simp]: "length (b_start mgmt_build) = 5" "length (b_stop mgmt_build) = 5"
  by (simp_all add: mgmt_build_def)

lemma td_inv_init: "td_inv (cap_init src l)"
  by (simp add: td_inv_def cap_init_def rec_ok_def rec_init_def rec_ctl_boot_def sds_api_def
      sdsRecInit_def sds_rec_boot_def sds_error_init_def)

lemma td_write_phase: "td_phase c P_Write s \<Longrightarrow> two_open s"
  by (cases c) (auto split: if_splits)

lemma td_check_phase: "td_phase c P_Idle s \<Longrightarrow> recActive s \<noteq> 0 \<Longrightarrow> td_phase c P_Write s"
  by (cases c) (auto split: if_splits)

lemma td_drain_phase:
  "td_phase c P_Idle s \<Longrightarrow> recActive s = 0 \<Longrightarrow> td_phase c P_Idle (s\<lparr>recDone := 1\<rparr>)"
  by (cases c) (auto simp: two_open_def split: if_splits)

lemma td_inv_step:
  assumes "cap_step mgmt_build x y" "td_inv x"
  shows "td_inv y"
  using assms
proof cases
  case (start n)
  then show ?thesis
    using td_start_step [of "cs x" n "ppc x"] assms(2) by (simp add: td_inv_def mgmt_build_def)
next
  case (stop n)
  then show ?thesis
    using td_stop_step [of "cs x" n "ppc x"] assms(2) by (simp add: td_inv_def mgmt_build_def)
next
  case (prod_write d)
  then have "two_open (cs x)" using assms(2) td_write_phase by (auto simp: td_inv_def)
  then show ?thesis
    using prod_write assms(2) td_write_phase [of "cpc x" "cs x"]
    by (cases "cpc x") (auto simp: td_inv_def prod_write_def rec_ok_def two_open_handle
        sdsRecWrite_frame two_open_def split: if_splits)
next
  case prod_check
  then show ?thesis using assms(2) td_check_phase by (simp add: td_inv_def)
next
  case drain_done
  then show ?thesis using assms(2) td_drain_phase by (simp add: td_inv_def rec_ok_def)
qed (use assms(2) in \<open>auto simp: td_inv_def\<close>)

lemma td_inv_reach:
  assumes "(cap_step mgmt_build)\<^sup>*\<^sup>* (cap_init src l) x"
  shows "td_inv x"
  using assms by (induction rule: rtranclp_induct) (auto intro: td_inv_init td_inv_step)

lemma td_evs_state:
  "cpc (cap_sched mgmt_build td_evs (cap_init ''rec_management.c'' 95)) = CStop 2"
  "ppc (cap_sched mgmt_build (take 9 td_evs) (cap_init ''rec_management.c'' 95)) = P_Write"
  by (simp_all add: td_evs_def mgmt_build_def mgmt_start_steps_def mgmt_stop_steps_def cap_init_def
     rec_init_def rec_ctl_boot_def sds_api_def sdsRecInit_def sds_rec_boot_def next_pc_def
     open_in_def open_out_def call_open_def sdsRecOpen_def name_open_def set_active_def clear_done_def
     set_led1_def prod_write_def done_set_def always_def)

lemma td_stop_tail:
  assumes "td_inv x" "cpc x = CStop n" "2 \<le> n"
  shows "\<exists>y. (cap_step mgmt_build)\<^sup>*\<^sup>* x y \<and> cpc y = CIdle \<and> recActive (cs y) = 0 \<and> td_inv y"
  using assms
proof (induction "5 - n" arbitrary: x n)
  case 0
  then show ?case by (auto simp: td_inv_def split: if_splits)
next
  case (Suc k)
  define y where "y = x\<lparr>cs := snd (b_stop mgmt_build ! n) (cs x), cpc := next_pc CStop n 5\<rparr>"
  have n: "n < 5" using Suc.hyps(2) by arith
  have "n = 2 \<or> n = 3 \<or> n = 4" using Suc.prems(3) n by arith
  then have g: "fst (b_stop mgmt_build ! n) (cs x)"
    by (auto simp: mgmt_build_def mgmt_stop_steps_def always_def)
  have st: "cap_step mgmt_build x y"
    using cap_step.stop [OF Suc.prems(2) _ g] n by (simp add: y_def)
  then have inv: "td_inv y" using td_inv_step Suc.prems(1) by blast
  show ?case
  proof (cases "n = 4")
    case True
    then have "recActive (cs y) = 0" using Suc.prems(1,2)
      by (simp add: y_def td_inv_def mgmt_build_def mgmt_stop_steps_def set_led1_def)
    then show ?thesis using st inv True by (auto simp: y_def next_pc_def)
  next
    case False
    then have "cpc y = CStop (Suc n)" using n by (simp add: y_def next_pc_def)
    moreover have "k = 5 - Suc n" using Suc.hyps(2) by arith
    ultimately obtain z where
      "(cap_step mgmt_build)\<^sup>*\<^sup>* y z" "cpc z = CIdle" "recActive (cs z) = 0" "td_inv z"
      using Suc.hyps(1) [of "Suc n" y] Suc.prems(3) inv by auto
    then show ?thesis using st by (meson converse_rtranclp_into_rtranclp)
  qed
qed

lemma td_stop1:
  assumes "td_inv x" "cpc x = CStop 1"
  shows "\<exists>y. (cap_step mgmt_build)\<^sup>*\<^sup>* x y \<and> cpc y = CStop 2 \<and> td_inv y"
proof -
  obtain x1 where x1: "(cap_step mgmt_build)\<^sup>*\<^sup>* x x1" "ppc x1 = P_Idle" "cpc x1 = CStop 1" "td_inv x1"
  proof (cases "ppc x")
    case P_Idle
    then show ?thesis using that assms by blast
  next
    case P_Write
    then have "cap_step mgmt_build x (prod_write [] x)" by (rule cap_step.prod_write)
    moreover have "td_inv (prod_write [] x)" using td_inv_step calculation assms(1) by blast
    moreover have "ppc (prod_write [] x) = P_Idle" "cpc (prod_write [] x) = CStop 1"
      using assms(2) by (simp_all add: prod_write_def)
    ultimately show ?thesis using that by (meson r_into_rtranclp)
  qed
  define x2 where "x2 = x1\<lparr>cs := (cs x1)\<lparr>recDone := 1\<rparr>\<rparr>"
  have a: "recActive (cs x1) = 0" using x1(3,4) by (simp add: td_inv_def)
  have s2: "cap_step mgmt_build x1 x2" unfolding x2_def using x1(2) a by (rule cap_step.drain_done)
  define x3 where "x3 = x2\<lparr>cs := snd (b_stop mgmt_build ! 1) (cs x2), cpc := next_pc CStop 1 5\<rparr>"
  have g: "fst (b_stop mgmt_build ! 1) (cs x2)"
    by (simp add: x2_def mgmt_build_def mgmt_stop_steps_def done_set_def)
  have s3: "cap_step mgmt_build x2 x3"
    using cap_step.stop [of x2 1, OF _ _ g] x1(3) by (simp add: x2_def x3_def)
  have "td_inv x3" using td_inv_step s2 s3 x1(4) by blast
  moreover have "(cap_step mgmt_build)\<^sup>*\<^sup>* x x3" using x1(1) s2 s3 by simp
  ultimately show ?thesis by (auto simp: x3_def next_pc_def)
qed

lemma td_stop_any:
  assumes "td_inv x" "cpc x = CStop n"
  shows "\<exists>y. (cap_step mgmt_build)\<^sup>*\<^sup>* x y \<and> cpc y = CIdle \<and> recActive (cs y) = 0 \<and> td_inv y"
proof -
  have from2: "\<exists>y. (cap_step mgmt_build)\<^sup>*\<^sup>* x1 y \<and> cpc y = CIdle \<and> recActive (cs y) = 0 \<and> td_inv y"
    if a: "td_inv x1" "cpc x1 = CStop 1" "(cap_step mgmt_build)\<^sup>*\<^sup>* x x1" for x1
  proof -
    obtain x2 where "(cap_step mgmt_build)\<^sup>*\<^sup>* x1 x2" "cpc x2 = CStop 2" "td_inv x2"
      using td_stop1 [OF a(1,2)] by blast
    then show ?thesis using td_stop_tail [of x2 2] a(3) by (meson rtranclp_trans order_refl)
  qed
  consider "n = 0" | "n = 1" | "2 \<le> n" by arith
  then show ?thesis
  proof cases
    case 1
    define x1 where "x1 = x\<lparr>cs := snd (b_stop mgmt_build ! 0) (cs x), cpc := next_pc CStop 0 5\<rparr>"
    have g: "fst (b_stop mgmt_build ! 0) (cs x)"
      by (simp add: mgmt_build_def mgmt_stop_steps_def always_def)
    have "cap_step mgmt_build x x1"
      using cap_step.stop [of x 0 mgmt_build, OF _ _ g] assms(2) 1 by (simp add: x1_def)
    moreover have "td_inv x1" using td_inv_step calculation assms(1) by blast
    moreover have "cpc x1 = CStop 1" by (simp add: x1_def next_pc_def)
    ultimately obtain y where "(cap_step mgmt_build)\<^sup>*\<^sup>* x1 y" "cpc y = CIdle"
        "recActive (cs y) = 0" "td_inv y"
      using from2 [of x1] by blast
    then show ?thesis using \<open>cap_step mgmt_build x x1\<close> by (meson converse_rtranclp_into_rtranclp)
  next
    case 2
    then show ?thesis using from2 [of x] assms by (meson rtranclp.rtrancl_refl)
  next
    case 3
    then show ?thesis using td_stop_tail assms by blast
  qed
qed

lemma model_start_sched:
  "let s = cap_sched model_build [EPress, ECtl, ECtl, ECtl, ECtl] (cap_init ''recorder_sds.c'' 92) in
   cpc s = CIdle \<and> ppc s = P_Idle \<and> recActive (cs s) = 1 \<and> lost s = 0 \<and> handle_open (cs s)"
  by (simp add: model_build_def model_start_steps_def cap_init_def
        rec_init_def rec_ctl_boot_def sds_api_def sdsRecInit_def sds_rec_boot_def next_pc_def
        open_in_def open_out_def call_open_def sdsRecOpen_def name_open_def set_active_def
        set_led1_def handle_open_def always_def REC_BUF_SIZE_MODEL_IN_def REC_IO_THRESHOLD_MODEL_IN_def
        REC_BUF_SIZE_MODEL_OUT_def REC_IO_THRESHOLD_MODEL_OUT_def)

lemma model_stop_race:
  assumes "cpc s = CIdle" "ppc s = P_Idle" "recActive (cs s) = 1" "handle_open (cs s)"
  shows "cpc (cap_sched model_build [ECheck, EPress, ECtl, ECtl, EWrite [7]] s) = CStop 2 \<and>
         lost (cap_sched model_build [ECheck, EPress, ECtl, ECtl, EWrite [7]] s) = Suc (lost s)"
proof -
  obtain i where "recId_in (cs s) = Some i" "rec_streams (sds (cs s)) i \<noteq> None"
    using assms(4) by (auto simp: handle_open_def split: option.splits)
  then show ?thesis using assms(1-3)
    by (simp add: model_build_def model_stop_steps_def close_in_def call_close_def sds_api_def
        sdsRecClose_def set_active_def prod_write_def handle_open_def next_pc_def always_def)
qed

subsection \<open>Properties of the composed system\<close>

text \<open>
  C30.  TestData never writes into a missing or closed stream: in every
  state the TestData controller, the producer and the drain signal can reach
  together, no producer write has found the input handle \<open>NULL\<close> or its
  stream closed (\<open>lost\<close> counts exactly those writes; a write that an open
  stream refuses because its buffer is full is not counted, the buffer being
  the subject of C20), no assertion has failed, and a producer between its
  check of \<open>recActive\<close> and its write finds the input stream open.
\<close>

theorem testdata_no_lost_write:
  assumes "(cap_step mgmt_build)\<^sup>*\<^sup>* (cap_init src l) x"
  shows "lost x = 0 \<and> occurred (sds_error (cs x)) = 0 \<and> (ppc x = P_Write \<longrightarrow> handle_open (cs x))"
  using td_inv_reach [OF assms] td_write_phase two_open_handle by (auto simp: td_inv_def rec_ok_def)

text \<open>
  C31.  TestData closes only after the drain: whenever the controller is
  at one of its close statements (or after them), \<open>recDone\<close> is set,
  \<open>recActive\<close> is clear and the producer is idle (specification section 5,
  "No close is issued for a session whose drain-complete flag is false").
\<close>

theorem testdata_close_after_drain:
  assumes "(cap_step mgmt_build)\<^sup>*\<^sup>* (cap_init src l) x" "cpc x = CStop n" "2 \<le> n"
  shows "recDone (cs x) \<noteq> 0 \<and> ppc x = P_Idle \<and> recActive (cs x) = 0"
  using td_inv_reach [OF assms(1)] assms(2,3) by (auto simp: td_inv_def split: if_splits)

text \<open>
  C32.  The drain wait of TestData never deadlocks: from every reachable
  state in which the controller is stopping, some continuation of the
  three processes completes the stop, with recording inactive, no stream
  open and no write lost.
\<close>

theorem testdata_stop_completes:
  assumes "(cap_step mgmt_build)\<^sup>*\<^sup>* (cap_init src l) x" "cpc x = CStop n"
  shows "\<exists>y. (cap_step mgmt_build)\<^sup>*\<^sup>* x y \<and> cpc y = CIdle \<and> recActive (cs y) = 0 \<and>
           rec_streams (sds (cs y)) = Map.empty \<and> lost y = 0"
proof -
  obtain y where "(cap_step mgmt_build)\<^sup>*\<^sup>* x y" "cpc y = CIdle" "recActive (cs y) = 0" "td_inv y"
    using td_stop_any [OF td_inv_reach [OF assms(1)] assms(2)] by blast
  then show ?thesis by (auto simp: td_inv_def)
qed

text \<open>
  C33.  ModelTest, which sets \<open>recActive\<close> before opening its streams and
  closes them without waiting for a drain, loses producer writes at both
  ends of a session: a write after \<open>recActive = 1U\<close> and before the open,
  and a write after the input stream was closed.
\<close>

theorem modeltest_lost_writes:
  "\<exists>x y. (cap_step model_build)\<^sup>*\<^sup>* (cap_init ''recorder_sds.c'' 92) x \<and> cpc x = CStart 1 \<and> lost x = 1 \<and>
         (cap_step model_build)\<^sup>*\<^sup>* (cap_init ''recorder_sds.c'' 92) y \<and> cpc y = CStop 2 \<and> lost y = 1"
proof -
  let ?i = "cap_init ''recorder_sds.c'' 92"
  let ?x = "cap_sched model_build [EPress, ECtl, ECheck, EWrite [7]] ?i"
  let ?s = "cap_sched model_build [EPress, ECtl, ECtl, ECtl, ECtl] ?i"
  let ?y = "cap_sched model_build [ECheck, EPress, ECtl, ECtl, EWrite [7]] ?s"
  have x: "cpc ?x = CStart 1 \<and> lost ?x = 1"
    by (simp add: model_build_def model_start_steps_def cap_init_def rec_init_def rec_ctl_boot_def
        sds_api_def sdsRecInit_def sds_rec_boot_def next_pc_def set_active_def prod_write_def
        handle_open_def always_def)
  have y: "cpc ?y = CStop 2 \<and> lost ?y = 1" using model_stop_race model_start_sched by (simp add: Let_def)
  have "(cap_step model_build)\<^sup>*\<^sup>* ?i ?y"
    using cap_sched_reach [of model_build ?i] cap_sched_reach [of model_build ?s]
    by (rule rtranclp_trans)
  then show ?thesis using x y cap_sched_reach by blast
qed
theorem testdata_no_lost_write_witness:
  "lost (cap_sched mgmt_build (take 9 td_evs) (cap_init ''rec_management.c'' 95)) = 0 \<and>
   occurred (sds_error (cs (cap_sched mgmt_build (take 9 td_evs) (cap_init ''rec_management.c'' 95)))) = 0 \<and>
   handle_open (cs (cap_sched mgmt_build (take 9 td_evs) (cap_init ''rec_management.c'' 95)))"
  using testdata_no_lost_write [OF cap_sched_reach] td_evs_state(2) by simp

theorem testdata_close_after_drain_witness:
  "recDone (cs (cap_sched mgmt_build td_evs (cap_init ''rec_management.c'' 95))) \<noteq> 0 \<and>
   ppc (cap_sched mgmt_build td_evs (cap_init ''rec_management.c'' 95)) = P_Idle \<and>
   recActive (cs (cap_sched mgmt_build td_evs (cap_init ''rec_management.c'' 95))) = 0"
  by (rule testdata_close_after_drain [OF cap_sched_reach td_evs_state(1) order_refl])

theorem testdata_stop_completes_witness:
  "\<exists>y. (cap_step mgmt_build)\<^sup>*\<^sup>* (cap_sched mgmt_build td_evs (cap_init ''rec_management.c'' 95)) y \<and>
       cpc y = CIdle \<and> recActive (cs y) = 0 \<and> rec_streams (sds (cs y)) = Map.empty \<and> lost y = 0"
  by (rule testdata_stop_completes [OF cap_sched_reach td_evs_state(1)])

end
