(* ===== verification/Spec2Isabelle.thy ===== *)
theory Spec2Isabelle
  imports ErrorReport ErrorLatch SensorDrv RecControl RecManagement SdsRec SocketBuild CaptureSystem
begin

text \<open>
  \<^bold>\<open>A verification library for the SDS data-capture examples.\<close>

  \<^emph>\<open>The program.\<close>  Five C files under \<open>src/\<close>:
  \<^item> \<open>Hardware/ModelTest/recorder_sds.c\<close> and \<open>recorder_sds.h\<close>: the thread
    \<open>rec_control\<close>, which toggles recording of the streams \<open>Model_Input\<close>
    (8192-byte buffer, threshold 7680) and \<open>Model_Output\<close> (576, 512) on each
    press of the user button, blinks LED0 as a heartbeat and shows recording
    on LED1; the error record \<open>sds_error\<close> and its latching macro
    \<open>sds_assert\<close>; the recorder event callback.
  \<^item> \<open>Hardware/TestData/rec_management.c\<close>: the thread
    \<open>threadRecManagement\<close>, the same loop for \<open>DataInput\<close> (8192, 7400) and
    \<open>DataOutput\<close> (1536, 1400), which sets \<open>recActive\<close> only after both
    sessions are open and, on stop, polls the \<open>recDone\<close> flag (set by the
    producer thread) before closing the sessions.
  \<^item> \<open>Hardware/Model1/Sensor/rec_management.h\<close>: a header with the same error
    record and assert macro (\<open>SDS_ASSERT\<close>).
  \<^item> \<open>Sensors/Alif_DevKit-E7/Source/sensor_drv.c\<close>: the sensor driver, two
    logical sensors (accelerometer, gyroscope) over one BMI323 device.
  The threads call the SDS recorder library (\<open>sdsRecInit\<close>, \<open>sdsRecOpen\<close>,
  \<open>sdsRecClose\<close>), CMSIS-VIO and the RTOS; the recorder calls back into
  \<open>recorder_event_callback\<close> on I/O errors, which fails an assertion.

  \<^emph>\<open>The theories.\<close>
  \<^item> \<open>Prelude\<close>: \<open>u8\<close>/\<open>u32\<close> as \<open>8 word\<close>/\<open>32 word\<close>, \<open>rec_id option\<close> for the
    \<open>sdsRecId_t\<close> pointer (\<open>None\<close> = \<open>NULL\<close>), the fault values standing for
    undefined behaviour, the constants of the external headers
    (\<open>cmsis_vio.h\<close>, \<open>sds_rec.h\<close>: modelled from their documented meaning),
    and shared word lemmas.
  \<^item> \<open>ErrorReport\<close>: \<open>sds_error_t\<close>, \<open>sds_assert\<close> (the macro, with
    \<open>__FILE__\<close>/\<open>__LINE__\<close> as arguments), \<open>recorder_event_callback\<close>; an
    abstract specification \<open>first_failure\<close> of what the record reports, and
    the refinement \<open>sds_assert_first_failure\<close> (C6) and latch-once (C7).
  \<^item> \<open>ErrorLatch\<close>: the macro as the processor runs it, one read and three
    stores (\<open>latch_step_thread\<close> over a program counter \<open>latch_pc\<close>), and two
    threads -- the controller and the recorder's I/O callback -- interleaved on
    the shared record (\<open>latch_step\<close>, an inductive step relation; \<open>latch_sched\<close>
    runs a given schedule).  C24 (rule induction over the
    reflexive-transitive closure): interleaved, the record still says whether a failure happened and names one of the two
    sites; C25: a set \<open>occurred\<close> does not freeze the report.  Also
    \<open>SDS_ASSERT\<close>/\<open>sdsError_t\<close> of the \<open>Model1\<close> header with its \<open>NDEBUG\<close> variant.
  \<^item> \<open>SensorDrv\<close>: the table \<open>Sensors[2]\<close> as a list built by
    \<open>Sensors_init\<close> from the configured \<open>SENSORn\<close> entries (\<open>None\<close> for an
    undefined \<open>SENSORn_NAME\<close>), a driver state with a count of physical
    initialisations, and one definition per function of \<open>sensor_drv.c\<close>.
    The BMI323 driver results are inputs (\<open>hw\<close> for
    \<open>bmi323_icm42670_init()\<close>, \<open>imu_reads\<close> for the sample reads); the
    caller's buffer is its byte list, \<open>memcpy\<close> is \<open>memcpy_off\<close>, which
    faults when it writes past the destination.  Lemmas C8-C16: shared
    activation, second enable fails, the capacity check and its 32-bit
    wrap-around, one sample per call, no overflow without wrap, lookup
    soundness, the \<open>NULL\<close> dereference and the misplaced \<open>SENSOR1\<close> of a
    one-sensor build; C26 the shape of the table under any sequence of enable
    calls (\<open>sensor_tbl_wf\<close>), C27 the name/handle/configuration round trip.
  \<^item> \<open>RecControl\<close>: the recorder as an interface \<open>'t sds_rec_api\<close> (three
    functions over any recorder state), the controller state \<open>'t rec_ctl\<close>
    (the thread's locals, the globals it writes, the recorder state, and a
    ghost log \<open>calls\<close> of recorder calls and \<open>recActive\<close> writes in
    order), and the loop body as \<open>led0_heartbeat\<close>, \<open>button_step\<close> (start
    and stop branches as parameters) and the branches of \<open>rec_control\<close>;
    \<open>ctl_run\<close> runs the loop over a list of inputs, one per iteration.
    The invariant \<open>ctl_inv\<close> (\<open>recActive\<close> is 0 or 1, \<open>led0_cnt \<le> 10\<close>,
    opens = closes + 2 while recording, LED1 follows \<open>recActive\<close>) holds on
    every run: C2; button edges C5; heartbeat period C17.
  \<^item> \<open>RecManagement\<close>: \<open>threadRecManagement\<close>, reusing the heartbeat and
    the button step; its poll \<open>do { osDelay(10U); } while (recDone == 0U)\<close>
    is \<open>rec_done_wait\<close>, a \<open>partial_function (option)\<close> over the values
    \<open>obs k\<close> read at each poll (\<open>None\<close>: the thread blocks forever).
    C1: sessions are closed only after \<open>recActive\<close> was cleared and a
    non-zero \<open>recDone\<close> read; C3: balance; C4: the poll returns exactly when
    \<open>recDone\<close> is eventually set, after the first such read; C18: an
    iteration blocks exactly at a stop with \<open>recDone\<close> never set (the
    heartbeat stalls with it); C19: start/stop order.
  \<^item> \<open>SdsRec\<close>: the SDS recorder, which is not in the repository, modelled
    from the specification (section 4.2): a circular byte buffer per stream
    (\<open>sds_stream\<close>: write index, read index, fill, flush requests, bytes
    handed to the transport), \<open>stream_write\<close> (whole write or refusal, one
    flush request per threshold crossing) and \<open>stream_drain\<close>, proved to
    refine a bounded byte queue (\<open>stream_abs\<close>, \<open>queue_write\<close>,
    \<open>queue_drain\<close>); the recorder \<open>sdsRecInit\<close>/\<open>sdsRecOpen\<close>/
    \<open>sdsRecClose\<close>/\<open>sdsRecWrite\<close> over a map of handles, and its instance
    \<open>sds_api\<close> of the controllers' interface.  C21: the specification's
    8192/7680 flush scenario on \<open>Model_Input\<close>.
  \<^item> \<open>SocketBuild\<close>: the \<open>RTE_SDS_IO_SOCKET\<close> build of both threads,
    which assert that \<open>socket_startup()\<close> returned 0 before \<open>sdsRecInit\<close>
    (\<open>socket_init\<close>, \<open>rec_control_sock\<close>, \<open>threadRecManagement_sock\<close>; the
    start-up status is an input).  C28/C29: a failed start-up is the error
    reported for the rest of the run.
  \<^item> \<open>CaptureSystem\<close>: the controller running concurrently with the producer
    that feeds its input stream and with the drain-complete signal.  Each
    start and stop branch is split into its C statements, a list of guarded
    actions (\<open>model_start_steps\<close>, \<open>model_stop_steps\<close>, \<open>mgmt_start_steps\<close>,
    \<open>mgmt_stop_steps\<close>; the \<open>recDone\<close> poll is the statement guarded by
    \<open>recDone \<noteq> 0\<close>).
    The producer (check \<open>recActive\<close>, then write with \<open>sdsRecWrite\<close>) and
    the signal (\<open>recDone := 1\<close> once recording is inactive and no write is
    in flight) are not in the repository and are modelled from the
    specification (sections 3 and 5).  \<open>cap_step\<close> is the inductive
    interleaving of the three processes over the shared globals, with a
    ghost count \<open>lost\<close> of writes that found no open stream; \<open>cap_sched\<close> runs
    a schedule.  For TestData, a phase invariant \<open>td_inv\<close> (rule induction)
    gives C30: no producer write ever finds the input stream missing or
    closed, and no assertion fails; C31: a close is
    reached only with \<open>recDone\<close> set and the producer idle; C32: the drain
    wait cannot deadlock, some continuation always completes the stop.
    C33: ModelTest, which sets \<open>recActive\<close> before its opens and does not
    wait for a drain, loses a write at both ends of a session.
  \<^item> this theory: the threads composed with \<open>sds_api\<close>; the invariant
    \<open>rec_sys_inv\<close> of the composed state and its preservation by every
    start and stop branch.  C20: no data loss on the four configured
    buffers; C22/C23: neither thread ever latches an error against this
    recorder, no stream is open when idle and exactly the session's two
    while recording.

  \<^emph>\<open>Bounds and loops.\<close>  Each \<open>for (;;)\<close> loop is a finite run over a list of
  iteration inputs; properties hold for every length.  The \<open>recDone\<close> poll
  has no bound in the code, so no fuel is chosen: its model returns
  \<open>None\<close> when it never ends, and C4 characterises exactly when it returns.
  The interleavings (\<open>latch_step\<close>, \<open>cap_step\<close>) are relations over all
  finite schedules, with executable runners for concrete ones.  The 8- and 32-bit quantities
  are words, so the capacity product and the LED counter wrap as in C.

  \<^emph>\<open>Not modelled.\<close>  What \<open>socket_startup()\<close> does (network I/O outside
  \<open>src/\<close>) is reduced to its status.  The transport behind the recorder is reduced to draining
  bytes.  The producer thread that sets \<open>recDone\<close> and writes samples is
  not in the repository: the sequential theories represent it by the
  values the controller reads (\<open>obs\<close>) and by write sequences of the stream
  model, and \<open>CaptureSystem\<close> by a two-step process (check, write) taken from
  the specification.  Concurrency is modelled for the error latch and for
  \<open>CaptureSystem\<close>; there the button edge detection and the heartbeat are
  left out of the interleaving, being verified sequentially in
  \<open>RecControl\<close> and \<open>RecManagement\<close>.  The GPIO and LED hardware behind
  \<open>vioGetSignal\<close>/\<open>vioSetSignal\<close> and the timing of \<open>osDelay\<close> are outside
  the program: only the values the code reads and writes are modelled.
\<close>

section \<open>The threads against the SDS recorder\<close>

text \<open>
  The controller theories verify the threads against every recorder; here
  they are composed with the recorder of \<open>SdsRec\<close> through its instance
  \<open>sds_api\<close>.  \<open>rec_sys_inv\<close> is the invariant of the composed state:
  the recorder is initialised, no assertion has failed, every open handle was
  handed out, no stream is open when idle and exactly the session's two
  streams are open while recording.
\<close>

definition rec_sys_inv :: "sds_rec rec_ctl \<Rightarrow> bool" where
  "rec_sys_inv s \<longleftrightarrow>
     rec_init_done (sds s) \<and> occurred (sds_error s) = 0 \<and>
     (\<forall>i \<in> dom (rec_streams (sds s)). i < rec_next (sds s)) \<and>
     (recActive s = 0 \<longrightarrow> dom (rec_streams (sds s)) = {}) \<and>
     (recActive s \<noteq> 0 \<longrightarrow> (\<exists>i j. recId_in s = Some i \<and> recId_out s = Some j \<and> i \<noteq> j \<and>
        dom (rec_streams (sds s)) = {i, j}))"

lemma rec_sys_inv_frame [simp]:
  "rec_sys_inv (s\<lparr>btn_prev := b\<rparr>) = rec_sys_inv s"
  "rec_sys_inv (s\<lparr>recDone := x\<rparr>) = rec_sys_inv s"
  "rec_sys_inv (led0_heartbeat s) = rec_sys_inv s"
  by (simp_all add: rec_sys_inv_def led0_heartbeat_def Let_def)

lemma sys_boot:
  "rec_sys_inv (rec_init src l sds_api (rec_ctl_boot sds_rec_boot))"
  by (simp add: rec_sys_inv_def rec_init_def rec_ctl_boot_def sds_api_def sdsRecInit_def
      sds_rec_boot_def sds_assert_def sds_error_init_def)

text \<open>Opening two differently named streams on an initialised recorder with no stream open.\<close>

lemma open_two_sys:
  assumes "rec_streams (sds s) = Map.empty" "rec_init_done (sds s)" "occurred (sds_error s) = 0"
    "nm1 \<noteq> nm2" "unat thr1 < unat b1" "unat thr2 < unat b2"
    "call_open sds_api f l1 nm1 b1 thr1 s = (r1, s1)"
    "call_open sds_api f l2 nm2 b2 thr2 (s1\<lparr>recId_in := r1\<rparr>) = (r2, s2)"
  shows "\<exists>i j. r1 = Some i \<and> r2 = Some j \<and> i \<noteq> j \<and> occurred (sds_error s2) = 0 \<and>
           rec_init_done (sds s2) \<and> dom (rec_streams (sds s2)) = {i, j} \<and>
           (\<forall>k \<in> dom (rec_streams (sds s2)). k < rec_next (sds s2)) \<and> recId_in s2 = r1 \<and>
           recActive s2 = recActive s"
proof -
  let ?n = "rec_next (sds s)"
  note A = call_open_sds [OF assms(7)]
  note B = call_open_sds [OF assms(8)]
  have "\<not> name_open nm1 (sds s)" using assms(1) by (simp add: name_open_empty)
  from A sdsRecOpen_fresh [OF assms(2,5) this]
  have "r1 = Some ?n \<and> sds s1 = (sds s)\<lparr>rec_streams := (rec_streams (sds s))(?n \<mapsto>
          stream_new nm1 (unat b1) (unat thr1)), rec_next := Suc ?n\<rparr>" by simp
  with A assms(1-3) have r1: "r1 = Some ?n"
    "rec_streams (sds s1) = [?n \<mapsto> stream_new nm1 (unat b1) (unat thr1)]"
    "rec_next (sds s1) = Suc ?n" "rec_init_done (sds s1)" "occurred (sds_error s1) = 0"
    by (simp_all add: sds_assert_def)
  let ?r = "sds (s1\<lparr>recId_in := r1\<rparr>)"
  have "\<not> name_open nm2 ?r"
    using name_open_single [OF _ assms(4)] r1(2) by simp
  from B sdsRecOpen_fresh [OF _ assms(6) this] r1(4)
  have "r2 = Some (Suc ?n) \<and> sds s2 = ?r\<lparr>rec_streams := (rec_streams ?r)(Suc ?n \<mapsto>
          stream_new nm2 (unat b2) (unat thr2)), rec_next := Suc (Suc ?n)\<rparr>" using r1(3) by simp
  with B r1 have r2: "r2 = Some (Suc ?n)"
    "rec_streams (sds s2) = [?n \<mapsto> stream_new nm1 (unat b1) (unat thr1),
       Suc ?n \<mapsto> stream_new nm2 (unat b2) (unat thr2)]"
    "rec_next (sds s2) = Suc (Suc ?n)" "rec_init_done (sds s2)" "occurred (sds_error s2) = 0"
    by (simp_all add: sds_assert_def)
  have F: "recId_in s2 = r1" "recActive s2 = recActive s" using A B by simp_all
  have D: "dom (rec_streams (sds s2)) = {?n, Suc ?n}" using r2(2) by auto
  show ?thesis
    apply (rule exI [of _ ?n])
    apply (rule exI [of _ "Suc ?n"])
    using r1(1) r2(1,3-5) F D by simp
qed

text \<open>Closing the two open streams of a recording session.\<close>

lemma close_two_sys:
  assumes "recId_in s = Some i" "recId_out s = Some j" "i \<noteq> j" "dom (rec_streams (sds s)) = {i, j}"
  shows "rec_streams (sds (call_close sds_api f' l' (Some j) (call_close sds_api f l (Some i) s))) =
           Map.empty \<and>
         sds (call_close sds_api f' l' (Some j) (call_close sds_api f l (Some i) s)) =
           (sds s)\<lparr>rec_streams := Map.empty\<rparr> \<and>
         sds_error (call_close sds_api f' l' (Some j) (call_close sds_api f l (Some i) s)) = sds_error s \<and>
         recActive (call_close sds_api f' l' (Some j) (call_close sds_api f l (Some i) s)) = recActive s"
proof -
  have ni: "rec_streams (sds s) i \<noteq> None" using assms(4) by auto
  note cl1 = call_close_sys [OF ni, of f l]
  have "rec_streams (sds (call_close sds_api f l (Some i) s)) j \<noteq> None"
    using cl1 assms(3,4) by auto
  note cl2 = call_close_sys [OF this, of f' l']
  have "(rec_streams (sds s))(i := None, j := None) = Map.empty" using assms(4) by (rule map_clear2)
  with cl1 cl2 show ?thesis by simp
qed

lemma sys_session:
  assumes "rec_sys_inv s" "recActive s \<noteq> 0"
  obtains i j where "recId_in s = Some i" "recId_out s = Some j" "i \<noteq> j"
    "dom (rec_streams (sds s)) = {i, j}"
  using assms by (auto simp: rec_sys_inv_def)

lemma start_model_sys:
  assumes "rec_sys_inv s" "recActive s = 0"
  shows "rec_sys_inv (rec_start_model sds_api s)"
proof -
  obtain rin s2 where o1: "call_open sds_api ''recorder_sds.c'' 116 ''Model_Input''
      REC_BUF_SIZE_MODEL_IN REC_IO_THRESHOLD_MODEL_IN (set_active 1 s) = (rin, s2)"
    by fastforce
  obtain rout s3 where o2: "call_open sds_api ''recorder_sds.c'' 123 ''Model_Output''
      REC_BUF_SIZE_MODEL_OUT REC_IO_THRESHOLD_MODEL_OUT (s2\<lparr>recId_in := rin\<rparr>) = (rout, s3)"
    by fastforce
  have e: "rec_streams (sds (set_active 1 s)) = Map.empty" "rec_init_done (sds (set_active 1 s))"
    "occurred (sds_error (set_active 1 s)) = 0"
    using assms by (auto simp: rec_sys_inv_def set_active_def)
  have "unat REC_IO_THRESHOLD_MODEL_IN < unat REC_BUF_SIZE_MODEL_IN"
       "unat REC_IO_THRESHOLD_MODEL_OUT < unat REC_BUF_SIZE_MODEL_OUT"
    by (simp_all add: REC_IO_THRESHOLD_MODEL_IN_def REC_BUF_SIZE_MODEL_IN_def
        REC_IO_THRESHOLD_MODEL_OUT_def REC_BUF_SIZE_MODEL_OUT_def)
  from open_two_sys [OF e _ this o1 o2] have
    "\<exists>i j. rin = Some i \<and> rout = Some j \<and> i \<noteq> j \<and> occurred (sds_error s3) = 0 \<and>
       rec_init_done (sds s3) \<and> dom (rec_streams (sds s3)) = {i, j} \<and>
       (\<forall>k \<in> dom (rec_streams (sds s3)). k < rec_next (sds s3)) \<and> recId_in s3 = rin \<and>
       recActive s3 = 1"
    by (simp add: set_active_def)
  moreover have "rec_start_model sds_api s = s3\<lparr>recId_out := rout, led1 := vioLEDon\<rparr>"
    using o1 o2 by (simp add: rec_start_model_def Let_def)
  ultimately show ?thesis by (auto simp: rec_sys_inv_def)
qed

lemma stop_model_sys:
  assumes "rec_sys_inv s" "recActive s \<noteq> 0"
  shows "rec_sys_inv (rec_stop_model sds_api s)"
proof -
  obtain i j where ij: "recId_in s = Some i" "recId_out s = Some j" "i \<noteq> j"
    "dom (rec_streams (sds s)) = {i, j}"
    using assms by (rule sys_session)
  then have "recId_in (set_active 0 s) = Some i" "recId_out (set_active 0 s) = Some j"
    "dom (rec_streams (sds (set_active 0 s))) = {i, j}" by (simp_all add: set_active_def)
  note C = close_two_sys [OF this(1,2) ij(3) this(3), of "''recorder_sds.c''" 136 "''recorder_sds.c''" 132]
  have "rec_stop_model sds_api s =
        (call_close sds_api ''recorder_sds.c'' 136 (Some j)
          (call_close sds_api ''recorder_sds.c'' 132 (Some i) (set_active 0 s)))\<lparr>led1 := vioLEDoff\<rparr>"
    using ij by (simp add: rec_stop_model_def Let_def set_active_def)
  with C assms(1) show ?thesis by (simp add: rec_sys_inv_def set_active_def)
qed

lemma start_mgmt_sys:
  assumes "rec_sys_inv s" "recActive s = 0"
  shows "rec_sys_inv (rec_start_mgmt sds_api s)"
proof -
  obtain rin s1 where o1: "call_open sds_api ''rec_management.c'' 117 ''DataInput''
      REC_BUF_SIZE_DATA_IN REC_IO_THRESHOLD_DATA_IN s = (rin, s1)"
    by fastforce
  obtain rout s2 where o2: "call_open sds_api ''rec_management.c'' 124 ''DataOutput''
      REC_BUF_SIZE_DATA_OUT REC_IO_THRESHOLD_DATA_OUT (s1\<lparr>recId_in := rin\<rparr>) = (rout, s2)"
    by fastforce
  have e: "rec_streams (sds s) = Map.empty" "rec_init_done (sds s)" "occurred (sds_error s) = 0"
    using assms by (auto simp: rec_sys_inv_def)
  have "unat REC_IO_THRESHOLD_DATA_IN < unat REC_BUF_SIZE_DATA_IN"
       "unat REC_IO_THRESHOLD_DATA_OUT < unat REC_BUF_SIZE_DATA_OUT"
    by (simp_all add: REC_IO_THRESHOLD_DATA_IN_def REC_BUF_SIZE_DATA_IN_def
        REC_IO_THRESHOLD_DATA_OUT_def REC_BUF_SIZE_DATA_OUT_def)
  note O = open_two_sys [OF e _ this o1 o2]
  have "rec_start_mgmt sds_api s =
        (set_active 1 (s2\<lparr>recId_out := rout, led1 := vioLEDon\<rparr>))\<lparr>recDone := 0\<rparr>"
    using o1 o2 by (simp add: rec_start_mgmt_def Let_def)
  with O show ?thesis by (auto simp: rec_sys_inv_def set_active_def)
qed

lemma stop_mgmt_sys:
  assumes "rec_sys_inv s" "recActive s \<noteq> 0" "rec_stop_mgmt sds_api obs s = Some s'"
  shows "rec_sys_inv s'"
proof -
  obtain n where w: "rec_done_wait obs 0 = Some n"
    using assms(3) by (cases "rec_done_wait obs 0") (simp_all add: rec_stop_mgmt_def Let_def)
  obtain i j where ij: "recId_in s = Some i" "recId_out s = Some j" "i \<noteq> j"
    "dom (rec_streams (sds s)) = {i, j}"
    using assms(1,2) by (rule sys_session)
  let ?s2 = "(set_active 0 s)\<lparr>recDone := obs (n - 1), calls := calls (set_active 0 s) @ [PollDone n]\<rparr>"
  have "recId_in ?s2 = Some i" "recId_out ?s2 = Some j" "dom (rec_streams (sds ?s2)) = {i, j}"
    using ij by (simp_all add: set_active_def)
  note C = close_two_sys [OF this(1,2) ij(3) this(3), of "''rec_management.c''" 145 "''rec_management.c''" 141]
  have "s' = (call_close sds_api ''rec_management.c'' 145 (Some j)
          (call_close sds_api ''rec_management.c'' 141 (Some i) ?s2))\<lparr>led1 := vioLEDoff\<rparr>"
    using assms(3) w ij by (simp add: rec_stop_mgmt_def Let_def set_active_def)
  with C assms(1) show ?thesis by (simp add: rec_sys_inv_def set_active_def)
qed

lemma tick_sys:
  assumes "rec_sys_inv s" "rec_control_tick sds_api s i = Some s'"
  shows "rec_sys_inv s'"
  apply (rule button_step_pres [OF _ _ _ _ assms(2) [unfolded rec_control_tick_def]])
     apply simp
    apply (blast intro: start_model_sys)
   apply (blast intro: stop_model_sys)
  using assms(1) by simp

lemma mgmt_tick_sys:
  assumes "rec_sys_inv s" "threadRecManagement_tick sds_api s (i, obs) = Some s'"
  shows "rec_sys_inv s'"
  apply (rule button_step_pres [OF _ _ _ _ assms(2) [unfolded threadRecManagement_tick_def prod.case]])
     apply simp
    apply (blast intro: start_mgmt_sys)
   apply (blast intro: stop_mgmt_sys)
  using assms(1) by simp

lemma rec_control_sys: "rec_control sds_api sds_rec_boot ins = Some s \<Longrightarrow> rec_sys_inv s"
  unfolding rec_control_def
  by (rule run_inv [of rec_sys_inv "rec_control_tick sds_api", OF tick_sys sys_boot])

lemma threadRecManagement_sys: "threadRecManagement sds_api sds_rec_boot ins = Some s \<Longrightarrow> rec_sys_inv s"
  unfolding threadRecManagement_def
  by (rule run_inv [of rec_sys_inv "threadRecManagement_tick sds_api", OF _ sys_boot])
     (metis mgmt_tick_sys surj_pair)


text \<open>
  C22.  With the SDS recorder, the \<open>rec_control\<close> thread never fails an
  assertion: after any number of loop iterations no error is latched; when
  idle no stream is open, and while recording exactly the two streams of the
  session, with distinct valid handles in \<open>recId_in\<close>/\<open>recId_out\<close>, are open.
\<close>

theorem rec_control_sds_session:
  assumes "rec_control sds_api sds_rec_boot ins = Some s"
  shows "occurred (sds_error s) = 0 \<and>
         (recActive s = 0 \<longrightarrow> rec_streams (sds s) = Map.empty) \<and>
         (recActive s \<noteq> 0 \<longrightarrow> (\<exists>i j. recId_in s = Some i \<and> recId_out s = Some j \<and> i \<noteq> j \<and>
            dom (rec_streams (sds s)) = {i, j}))"
  using rec_control_sys [OF assms] by (simp add: rec_sys_inv_def)

text \<open>
  C23.  The same for \<open>threadRecManagement\<close>: on every run in which each
  iteration returns, no assertion fails, no stream stays open once
  recording is stopped, and a recording session holds exactly its two
  streams.
\<close>

theorem threadRecManagement_sds_session:
  assumes "threadRecManagement sds_api sds_rec_boot ins = Some s"
  shows "occurred (sds_error s) = 0 \<and>
         (recActive s = 0 \<longrightarrow> rec_streams (sds s) = Map.empty) \<and>
         (recActive s \<noteq> 0 \<longrightarrow> (\<exists>i j. recId_in s = Some i \<and> recId_out s = Some j \<and> i \<noteq> j \<and>
            dom (rec_streams (sds s)) = {i, j}))"
  using threadRecManagement_sys [OF assms] by (simp add: rec_sys_inv_def)

theorem rec_control_sds_session_witness:
  "rec_control sds_api sds_rec_boot [1, 0, 1] = Some (the (rec_control sds_api sds_rec_boot [1, 0, 1])) \<and>
   occurred (sds_error (the (rec_control sds_api sds_rec_boot [1, 0, 1]))) = 0"
proof -
  obtain s where r: "rec_control sds_api sds_rec_boot [1, 0, 1] = Some s"
    using rec_control_total [of sds_api sds_rec_boot "[1, 0, 1]"] by blast
  from rec_control_sds_session [OF r] r show ?thesis by simp
qed

theorem threadRecManagement_sds_session_witness:
  "threadRecManagement sds_api sds_rec_boot [(1, \<lambda>_. 1), (0, \<lambda>_. 1), (1, \<lambda>_. 1)] =
     Some (the (threadRecManagement sds_api sds_rec_boot [(1, \<lambda>_. 1), (0, \<lambda>_. 1), (1, \<lambda>_. 1)])) \<and>
   occurred (sds_error (the (threadRecManagement sds_api sds_rec_boot
     [(1, \<lambda>_. 1), (0, \<lambda>_. 1), (1, \<lambda>_. 1)]))) = 0"
proof -
  let ?ins = "[(1, \<lambda>_. 1), (0, \<lambda>_. 1), (1, \<lambda>_. 1)] :: (u32 \<times> (nat \<Rightarrow> u8)) list"
  have "\<forall>x \<in> set ?ins. \<exists>j. snd x j \<noteq> 0" by simp
  then obtain s where r: "threadRecManagement sds_api sds_rec_boot ?ins = Some s"
    unfolding threadRecManagement_def using mgmt_run_total by blast
  from threadRecManagement_sds_session [OF r] r show ?thesis by simp
qed



end
